theory Spec2Isabelle
  imports Complex_Main "HOL-Library.Multiset" "HOL-Library.Word"
begin

section \<open>Numeric model and configuration\<close>

text \<open>
  The post-processing kernels of \<^verbatim>\<open>base/post_process/post_processes.py\<close> work on numpy
  arrays of floating-point numbers. Here an array is a nested list (one list level per
  axis, row-major, as \<^verbatim>\<open>reshape\<close> flattens it) and a number is a \<^typ>\<open>real\<close>: the
  arithmetic of the kernels is exact, without rounding, infinities or NaN. Where numpy
  would produce an infinity or NaN (a division by zero) the model says so explicitly.
  Exceptions are values of type \<open>error\<close>.
\<close>

datatype error = IndexError | ValueError

text \<open>The entries \<^verbatim>\<open>cfg["inference"][...]\<close> of the configuration file that the kernels read.\<close>

record config =
  net_size :: real
  obj_thresh :: real
  nms_thresh :: real

type_synonym tensor4 = "real list list list list"

text \<open>Python's \<^verbatim>\<open>int(x)\<close> on a float truncates towards zero.\<close>

definition py_int :: "real \<Rightarrow> int" where
  "py_int r = (if 0 \<le> r then \<lfloor>r\<rfloor> else \<lceil>r\<rceil>)"

text \<open>Element-wise combination of two arrays of the same four-axis shape.\<close>

definition tmap2 :: "(real \<Rightarrow> real \<Rightarrow> real) \<Rightarrow> tensor4 \<Rightarrow> tensor4 \<Rightarrow> tensor4" where
  "tmap2 f A B = map2 (map2 (map2 (map2 f))) A B"

definition tmap :: "(real \<Rightarrow> real) \<Rightarrow> tensor4 \<Rightarrow> tensor4" where
  "tmap f A = map (map (map (map f))) A"

section \<open>Box decoding (\<^verbatim>\<open>sigmoid\<close>, \<^verbatim>\<open>process\<close>)\<close>

text \<open>
  \<^verbatim>\<open>def sigmoid(x): return x# 1 / (1 + np.exp(-x))\<close>: the logistic formula is commented
  out and the function returns its argument.
\<close>

definition sigmoid :: "real \<Rightarrow> real" where
  "sigmoid x = x"

text \<open>The logistic function that the commented-out formula, and the specification, name.\<close>

definition logistic :: "real \<Rightarrow> real" where
  "logistic x = 1 / (1 + exp (- x))"

text \<open>
  \<^verbatim>\<open>col\<close> and \<^verbatim>\<open>row\<close> of \<^verbatim>\<open>process\<close>: \<^verbatim>\<open>np.tile(np.arange(0, grid_w), grid_w)\<close> reshaped
  to rows of length \<^verbatim>\<open>grid_w\<close> has the column index in every row, and
  \<^verbatim>\<open>np.tile(np.arange(0, grid_h).reshape(-1, 1), grid_h)\<close> has the row index in every
  column; both are then reshaped to \<^verbatim>\<open>(grid_h, grid_w, 1, 1)\<close> and repeated three times
  along the anchor axis.
\<close>

definition grid_col :: "nat \<Rightarrow> nat \<Rightarrow> tensor4" where
  "grid_col grid_h grid_w =
     map (\<lambda>i. map (\<lambda>j. replicate 3 [real j]) [0..<grid_w]) [0..<grid_h]"

definition grid_row :: "nat \<Rightarrow> nat \<Rightarrow> tensor4" where
  "grid_row grid_h grid_w =
     map (\<lambda>i. map (\<lambda>j. replicate 3 [real i]) [0..<grid_w]) [0..<grid_h]"

text \<open>\<^verbatim>\<open>np.concatenate((a, b), axis=-1)\<close> on four-axis arrays.\<close>

definition concat_last :: "tensor4 \<Rightarrow> tensor4 \<Rightarrow> tensor4" where
  "concat_last A B = map2 (map2 (map2 (@))) A B"

text \<open>
  \<^verbatim>\<open>process(input, mask, anchors)\<close>. The input has shape
  \<^verbatim>\<open>(grid_h, grid_w, 3, 5 + classes)\<close>. The checks are the places where numpy raises:
  \<^verbatim>\<open>anchors[i]\<close> out of range, \<^verbatim>\<open>input[..., 4]\<close> with fewer than five channels, the
  reshape of \<^verbatim>\<open>col\<close> and \<^verbatim>\<open>row\<close> to \<^verbatim>\<open>(grid_h, grid_w, 1, 1)\<close>, which needs a square,
  non-empty grid, and the in-place \<^verbatim>\<open>box_xy += grid\<close>, which needs three anchors per
  cell. The anchor table selected by \<^verbatim>\<open>mask\<close> has to be of shape \<^verbatim>\<open>(3, 2)\<close> for the
  product \<^verbatim>\<open>box_wh * anchors\<close> (the only shape \<^verbatim>\<open>yolov5_post_process\<close> passes).
\<close>

definition process ::
  "config \<Rightarrow> tensor4 \<Rightarrow> nat list \<Rightarrow> real list list \<Rightarrow> error + (tensor4 \<times> tensor4 \<times> tensor4)" where
  "process cfg input msk anchors =
    (if \<not> list_all (\<lambda>i. i < length anchors) msk then Inl IndexError
     else
      let anchors' = map (\<lambda>i. anchors ! i) msk;
          grid_h = length input;
          grid_w = (case input of [] \<Rightarrow> 0 | r # _ \<Rightarrow> length r)
      in
      if \<not> list_all (list_all (list_all (\<lambda>v. 5 \<le> length v))) input then Inl IndexError
      else if grid_w = 0 \<or> \<not> list_all (\<lambda>r. length r = grid_h) input then Inl ValueError
      else if \<not> list_all (list_all (\<lambda>cell. length cell = 3)) input then Inl ValueError
      else if \<not> (length anchors' = 3 \<and> list_all (\<lambda>a. length a = 2) anchors') then Inl ValueError
      else
       let box_confidence = map (map (map (\<lambda>v. [sigmoid (v ! 4)]))) input;
           box_class_probs = tmap sigmoid (map (map (map (drop 5))) input);
           box_xy = tmap (\<lambda>x. sigmoid x * 2 - 0.5) (map (map (map (take 2))) input);
           grid = concat_last (grid_col grid_h grid_w) (grid_row grid_h grid_w);
           box_xy = tmap2 (+) box_xy grid;
           box_xy = tmap (\<lambda>x. x * real_of_int (py_int (net_size cfg / real grid_h))) box_xy;
           box_wh = tmap (\<lambda>x. (sigmoid x * 2) ^ 2) (map (map (map (\<lambda>v. take 2 (drop 2 v)))) input);
           box_wh = map (map (\<lambda>cell. map2 (map2 (*)) cell anchors')) box_wh;
           box = concat_last box_xy box_wh
       in Inr (box, box_confidence, box_class_probs))"

text \<open>The anchor table and masks of \<^verbatim>\<open>yolov5_post_process\<close>.\<close>

definition yolo_anchors :: "real list list" where
  "yolo_anchors = [[10, 13], [16, 30], [33, 23], [30, 61], [62, 45],
                   [59, 119], [116, 90], [156, 198], [373, 326]]"

definition yolo_masks :: "nat list list" where
  "yolo_masks = [[0, 1, 2], [3, 4, 5], [6, 7, 8]]"


section \<open>Confidence filter (\<^verbatim>\<open>filter_boxes\<close>)\<close>

text \<open>\<^verbatim>\<open>np.where(cond)\<close> on a one-axis array: the indices where the condition holds.\<close>

definition np_where :: "('a \<Rightarrow> bool) \<Rightarrow> 'a list \<Rightarrow> nat list" where
  "np_where p xs = filter (\<lambda>i. p (xs ! i)) [0..<length xs]"

text \<open>\<^verbatim>\<open>xs[idx]\<close> for an index array \<^verbatim>\<open>idx\<close> (the callers check the range of the indices).\<close>

definition take_idx :: "'a list \<Rightarrow> nat list \<Rightarrow> 'a list" where
  "take_idx xs idx = map (\<lambda>i. xs ! i) idx"

text \<open>\<^verbatim>\<open>np.max\<close> and \<^verbatim>\<open>np.argmax\<close> along the last axis, on one non-empty row; \<^verbatim>\<open>argmax\<close>
  returns the first index of the maximum.\<close>

definition np_max :: "real list \<Rightarrow> real" where
  "np_max xs = foldl max (hd xs) (tl xs)"

definition np_argmax :: "real list \<Rightarrow> nat" where
  "np_argmax xs = length (takeWhile (\<lambda>x. x \<noteq> np_max xs) xs)"

text \<open>
  \<^verbatim>\<open>filter_boxes(boxes, box_confidences, box_class_probs)\<close>. The three reshapes list
  the innermost vectors of the arrays in row-major order: \<^verbatim>\<open>boxes.reshape(-1, 4)\<close> on
  boxes whose last axis has length four (what \<^verbatim>\<open>process\<close> returns; other lengths are
  rejected here), \<^verbatim>\<open>box_confidences.reshape(-1)\<close> every number, and
  \<^verbatim>\<open>box_class_probs.reshape(-1, box_class_probs.shape[-1])\<close> the class vectors, which
  raises when there is no class. Indexing with \<^verbatim>\<open>_box_pos\<close> raises when an index is
  out of range.
\<close>

definition filter_boxes ::
  "config \<Rightarrow> tensor4 \<Rightarrow> tensor4 \<Rightarrow> tensor4 \<Rightarrow> error + (real list list \<times> nat list \<times> real list)" where
  "filter_boxes cfg boxes box_confidences box_class_probs =
    (if \<not> list_all (list_all (list_all (\<lambda>v. length v = 4))) boxes then Inl ValueError
     else if \<not> list_all (list_all (list_all (\<lambda>v. v \<noteq> []))) box_class_probs then Inl ValueError
     else
      let boxes = concat (concat boxes);
          box_confidences = concat (concat (concat box_confidences));
          box_class_probs = concat (concat box_class_probs);
          box_pos = np_where (\<lambda>c. obj_thresh cfg \<le> c) box_confidences
      in
      if \<not> list_all (\<lambda>i. i < length boxes \<and> i < length box_class_probs) box_pos
      then Inl IndexError
      else
       let boxes = take_idx boxes box_pos;
           box_confidences = take_idx box_confidences box_pos;
           box_class_probs = take_idx box_class_probs box_pos;
           class_max_score = map np_max box_class_probs;
           classes = map np_argmax box_class_probs;
           class_pos = np_where (\<lambda>m. obj_thresh cfg \<le> m) class_max_score;
           boxes = take_idx boxes class_pos;
           classes = take_idx classes class_pos;
           scores = take_idx (map2 (*) class_max_score box_confidences) class_pos
       in Inr (boxes, classes, scores))"

section \<open>Corner form (\<^verbatim>\<open>xywh2xyxy\<close>)\<close>

text \<open>Columns 0 to 3 are rewritten, further columns of the copy stay; a row with fewer
  than four columns raises.\<close>

definition xywh2xyxy :: "real list list \<Rightarrow> error + real list list" where
  "xywh2xyxy x =
    (if \<not> list_all (\<lambda>r. 4 \<le> length r) x then Inl IndexError
     else Inr (map (\<lambda>r. [r ! 0 - r ! 2 / 2, r ! 1 - r ! 3 / 2,
                          r ! 0 + r ! 2 / 2, r ! 1 + r ! 3 / 2] @ drop 4 r) x))"

section \<open>Non-maximum suppression (\<^verbatim>\<open>nms_boxes\<close>)\<close>

text \<open>
  \<^verbatim>\<open>scores.argsort()\<close>: the indices in ascending order of score. numpy leaves the
  order of equal scores open (its default sort is not stable); the model keeps equal
  scores in index order.
\<close>

definition argsort :: "real list \<Rightarrow> nat list" where
  "argsort scores = sort_key (\<lambda>i. scores ! i) [0..<length scores]"

text \<open>
  One entry of \<^verbatim>\<open>inter\<close> and of the denominator of \<^verbatim>\<open>ovr\<close> in the loop of
  \<^verbatim>\<open>nms_boxes\<close>, for the box rows \<open>bi\<close> (the box taken) and \<open>bj\<close> (a remaining box), with
  \<^verbatim>\<open>x\<close>, \<^verbatim>\<open>y\<close>, \<^verbatim>\<open>w\<close>, \<^verbatim>\<open>h\<close> and \<^verbatim>\<open>areas\<close> as the function computes them.
\<close>

definition inter :: "real list \<Rightarrow> real list \<Rightarrow> real" where
  "inter bi bj =
    (let xi = bi ! 0; yi = bi ! 1; wi = bi ! 2 - bi ! 0; hi = bi ! 3 - bi ! 1;
         xj = bj ! 0; yj = bj ! 1; wj = bj ! 2 - bj ! 0; hj = bj ! 3 - bj ! 1;
         xx1 = max xi xj;
         yy1 = max yi yj;
         xx2 = min (xi + wi) (xj + wj);
         yy2 = min (yi + hi) (yj + hj);
         w1 = max 0 (xx2 - xx1 + 0.00001);
         h1 = max 0 (yy2 - yy1 + 0.00001)
     in w1 * h1)"

definition areas :: "real list \<Rightarrow> real" where
  "areas b = (b ! 2 - b ! 0) * (b ! 3 - b ! 1)"

definition ovr :: "real list \<Rightarrow> real list \<Rightarrow> real" where
  "ovr bi bj = inter bi bj / (areas bi + areas bj - inter bi bj)"

text \<open>
  One entry of the test \<^verbatim>\<open>ovr <= cfg["inference"]["nms_thresh"]\<close>. When the denominator
  is zero numpy's quotient is an infinity or NaN (\<^verbatim>\<open>inter\<close> is never negative) and the
  comparison is false.
\<close>

definition ovr_le :: "config \<Rightarrow> real list \<Rightarrow> real list \<Rightarrow> bool" where
  "ovr_le cfg bi bj =
     (areas bi + areas bj - inter bi bj \<noteq> 0 \<and> ovr bi bj \<le> nms_thresh cfg)"

text \<open>The \<^verbatim>\<open>while order.size > 0\<close> loop: \<^verbatim>\<open>order[inds + 1]\<close> are the entries of
  \<^verbatim>\<open>order[1:]\<close> that pass the test.\<close>

fun nms_loop :: "config \<Rightarrow> real list list \<Rightarrow> nat list \<Rightarrow> nat list" where
  "nms_loop cfg boxes [] = []"
| "nms_loop cfg boxes (i # order) =
     i # nms_loop cfg boxes (filter (\<lambda>j. ovr_le cfg (boxes ! i) (boxes ! j)) order)"

text \<open>
  \<^verbatim>\<open>nms_boxes(boxes, scores)\<close>. The column slices raise on a row with fewer than four
  columns, and the first pass of the loop reads \<^verbatim>\<open>x\<close> at every index of \<^verbatim>\<open>scores\<close>,
  which raises when there are more scores than boxes.
\<close>

definition nms_boxes :: "config \<Rightarrow> real list list \<Rightarrow> real list \<Rightarrow> error + nat list" where
  "nms_boxes cfg boxes scores =
    (if \<not> list_all (\<lambda>r. 4 \<le> length r) boxes then Inl IndexError
     else if length boxes < length scores then Inl IndexError
     else Inr (nms_loop cfg boxes (rev (argsort scores))))"


section \<open>Detection post-process (\<^verbatim>\<open>yolov5_post_process\<close>)\<close>

text \<open>The first loop: \<^verbatim>\<open>process\<close> and \<^verbatim>\<open>filter_boxes\<close> for each pair of
  \<^verbatim>\<open>zip(input_data, masks)\<close>, appending to \<^verbatim>\<open>boxes\<close>, \<^verbatim>\<open>classes\<close> and \<^verbatim>\<open>scores\<close>.\<close>

fun decode_scales ::
  "config \<Rightarrow> (tensor4 \<times> nat list) list
     \<Rightarrow> error + (real list list list \<times> nat list list \<times> real list list)" where
  "decode_scales cfg [] = Inr ([], [], [])"
| "decode_scales cfg ((input, msk) # rest) =
     (case process cfg input msk yolo_anchors of
        Inl e \<Rightarrow> Inl e
      | Inr (b, c, s) \<Rightarrow>
         (case filter_boxes cfg b c s of
            Inl e \<Rightarrow> Inl e
          | Inr (b, c, s) \<Rightarrow>
             (case decode_scales cfg rest of
                Inl e \<Rightarrow> Inl e
              | Inr (boxes, classes, scores) \<Rightarrow> Inr (b # boxes, c # classes, s # scores))))"

text \<open>
  The second loop, \<^verbatim>\<open>for c in set(classes)\<close>, over the class ids \<open>cs\<close> still to visit.
  Python iterates a set in the order of its hash table, which need not be ascending;
  \<open>class_ids\<close> below lists the distinct ids in ascending order, so the class groups of
  the result can come in another order than in Python. The properties proved below
  speak of lengths and of membership, not of this order. \<^verbatim>\<open>boxes[inds]\<close> and \<^verbatim>\<open>scores[inds]\<close> raise when
  an index of \<^verbatim>\<open>classes\<close> is out of their range.
\<close>

fun nms_classes ::
  "config \<Rightarrow> real list list \<Rightarrow> nat list \<Rightarrow> real list \<Rightarrow> nat list
     \<Rightarrow> error + (real list list list \<times> nat list list \<times> real list list)" where
  "nms_classes cfg boxes classes scores [] = Inr ([], [], [])"
| "nms_classes cfg boxes classes scores (c # cs) =
     (let inds = np_where (\<lambda>k. k = c) classes
      in if \<not> list_all (\<lambda>i. i < length boxes \<and> i < length scores) inds then Inl IndexError
         else
          (let b = take_idx boxes inds;
               c' = take_idx classes inds;
               s = take_idx scores inds
           in case nms_boxes cfg b s of
                Inl e \<Rightarrow> Inl e
              | Inr keep \<Rightarrow>
                 (case nms_classes cfg boxes classes scores cs of
                    Inl e \<Rightarrow> Inl e
                  | Inr (nboxes, nclasses, nscores) \<Rightarrow>
                      Inr (take_idx b keep # nboxes, take_idx c' keep # nclasses,
                           take_idx s keep # nscores))))"

definition class_ids :: "nat list \<Rightarrow> nat list" where
  "class_ids classes = sort (remdups classes)"

text \<open>
  \<^verbatim>\<open>yolov5_post_process(input_data)\<close>; \<open>None\<close> is the triple \<^verbatim>\<open>None, None, None\<close>.
  \<^verbatim>\<open>np.concatenate\<close> raises on an empty list of arrays.
\<close>

definition yolov5_post_process ::
  "config \<Rightarrow> tensor4 list \<Rightarrow> error + (real list list \<times> nat list \<times> real list) option" where
  "yolov5_post_process cfg input_data =
    (case decode_scales cfg (zip input_data yolo_masks) of
       Inl e \<Rightarrow> Inl e
     | Inr (boxes, classes, scores) \<Rightarrow>
       (if boxes = [] then Inl ValueError
        else
         (case xywh2xyxy (concat boxes) of
            Inl e \<Rightarrow> Inl e
          | Inr boxes \<Rightarrow>
             (let classes = concat classes;
                  scores = concat scores
              in (case nms_classes cfg boxes classes scores (class_ids classes) of
                    Inl e \<Rightarrow> Inl e
                  | Inr (nboxes, nclasses, nscores) \<Rightarrow>
                     (if nclasses = [] \<and> nscores = [] then Inr None
                      else Inr (Some (concat nboxes, concat nclasses, concat nscores))))))))"

section \<open>The loops of the entry points\<close>

text \<open>
  \<^verbatim>\<open>while True:\<close> around a body that works on the local variables \<open>s\<close>: the body
  either returns a result (or raises, which leaves the loop as well) or reaches its end
  and is run again. A loop that never returns has the value \<open>None\<close>.
\<close>

datatype ('s, 'r) flow = Return 'r | Again 's

partial_function (option) while_true :: "('s \<Rightarrow> ('s, 'r) flow) \<Rightarrow> 's \<Rightarrow> 'r option" where
  "while_true body s = (case body s of Return r \<Rightarrow> Some r | Again s' \<Rightarrow> while_true body s')"

section \<open>Detection entry point (\<^verbatim>\<open>post_yolov5\<close>)\<close>

text \<open>
  An accelerator output \<^verbatim>\<open>out\<close> is modelled with its leading axes merged, as
  \<^verbatim>\<open>channels \<times> height \<times> width\<close>. \<^verbatim>\<open>out.reshape([3, -1] + list(out.shape[-2:]))\<close> splits
  the channels into three equal groups and raises when their number is not a multiple
  of three; \<^verbatim>\<open>np.transpose(out, (2, 3, 0, 1))\<close> moves the two spatial axes to the front.
\<close>

definition reshape_anchors :: "real list list list \<Rightarrow> error + tensor4" where
  "reshape_anchors out =
    (if length out mod 3 \<noteq> 0 then Inl ValueError
     else let k = length out div 3
          in Inr [take k out, take k (drop k out), drop (2 * k) out])"

definition transpose_2301 :: "tensor4 \<Rightarrow> tensor4" where
  "transpose_2301 t =
    (let n0 = length t;
         n1 = (case t of [] \<Rightarrow> 0 | a # _ \<Rightarrow> length a);
         n2 = (case concat t of [] \<Rightarrow> 0 | a # _ \<Rightarrow> length a);
         n3 = (case concat (concat t) of [] \<Rightarrow> 0 | a # _ \<Rightarrow> length a)
     in map (\<lambda>h. map (\<lambda>w. map (\<lambda>a. map (\<lambda>k. t ! a ! k ! h ! w) [0..<n1]) [0..<n0])
                   [0..<n3]) [0..<n2])"

fun prepare :: "real list list list list \<Rightarrow> error + tensor4 list" where
  "prepare [] = Inr []"
| "prepare (out # outputs) =
     (case reshape_anchors out of
        Inl e \<Rightarrow> Inl e
      | Inr out' \<Rightarrow>
         (case prepare outputs of
            Inl e \<Rightarrow> Inl e
          | Inr data \<Rightarrow> Inr (transpose_2301 out' # data)))"

text \<open>
  The body of the loop of \<^verbatim>\<open>post_yolov5(outputs, frame)\<close>. \<^verbatim>\<open>draw\<close> (OpenCV drawing on
  the frame, in place) and \<^verbatim>\<open>format_dets\<close> (from \<^verbatim>\<open>base.utils\<close>) are parameters: the
  first returns the frame it has drawn on.
\<close>

definition post_yolov5_body ::
  "config \<Rightarrow> ('f \<Rightarrow> real list list \<Rightarrow> real list \<Rightarrow> nat list \<Rightarrow> 'f)
     \<Rightarrow> (real list list \<Rightarrow> nat list \<Rightarrow> real list \<Rightarrow> 'd)
     \<Rightarrow> real list list list list \<Rightarrow> 'f \<Rightarrow> error + ('f \<times> 'd option)" where
  "post_yolov5_body cfg draw format_dets outputs frame =
    (case prepare outputs of
       Inl e \<Rightarrow> Inl e
     | Inr data \<Rightarrow>
        (case yolov5_post_process cfg data of
           Inl e \<Rightarrow> Inl e
         | Inr None \<Rightarrow> Inr (frame, None)
         | Inr (Some (boxes, classes, scores)) \<Rightarrow>
             Inr (draw frame boxes scores classes, Some (format_dets boxes classes scores))))"

definition post_yolov5 ::
  "config \<Rightarrow> ('f \<Rightarrow> real list list \<Rightarrow> real list \<Rightarrow> nat list \<Rightarrow> 'f)
     \<Rightarrow> (real list list \<Rightarrow> nat list \<Rightarrow> real list \<Rightarrow> 'd)
     \<Rightarrow> real list list list list \<Rightarrow> 'f \<Rightarrow> (error + ('f \<times> 'd option)) option" where
  "post_yolov5 cfg draw format_dets outputs frame =
     while_true (\<lambda>fr. Return (post_yolov5_body cfg draw format_dets outputs fr)) frame"


section \<open>Segmentation (\<^verbatim>\<open>get_mask\<close>, \<^verbatim>\<open>post_unet\<close>)\<close>

text \<open>\<^verbatim>\<open>np.transpose(raw_mask, (1, 2, 0))\<close>: channels \<open>\<times>\<close> height \<open>\<times>\<close> width becomes
  height \<open>\<times>\<close> width \<open>\<times>\<close> channels.\<close>

definition transpose_120 :: "real list list list \<Rightarrow> real list list list" where
  "transpose_120 t =
    (let n0 = length t;
         n1 = (case t of [] \<Rightarrow> 0 | a # _ \<Rightarrow> length a);
         n2 = (case concat t of [] \<Rightarrow> 0 | a # _ \<Rightarrow> length a)
     in map (\<lambda>h. map (\<lambda>w. map (\<lambda>c. t ! c ! h ! w) [0..<n0]) [0..<n2]) [0..<n1])"

text \<open>\<^verbatim>\<open>reverse_one_hot\<close>: \<^verbatim>\<open>np.argmax(image, axis = -1)\<close>, which raises on an empty
  channel axis.\<close>

definition reverse_one_hot :: "real list list list \<Rightarrow> error + nat list list" where
  "reverse_one_hot img =
    (if \<not> list_all (list_all (\<lambda>v. v \<noteq> [])) img then Inl ValueError
     else Inr (map (map np_argmax) img))"

text \<open>\<^verbatim>\<open>colour_code_segmentation\<close>: \<^verbatim>\<open>colour_codes[image.astype(int)]\<close>, which raises on a
  class index outside the table.\<close>

definition colour_code_segmentation ::
  "nat list list \<Rightarrow> int list list \<Rightarrow> error + int list list list" where
  "colour_code_segmentation img label_values =
    (if \<not> list_all (list_all (\<lambda>k. k < length label_values)) img then Inl IndexError
     else Inr (map (map (\<lambda>k. label_values ! k)) img))"

definition select_class_rgb_values :: "int list list" where
  "select_class_rgb_values = [[0, 0, 0], [255, 255, 255]]"

text \<open>\<^verbatim>\<open>get_mask(raw_mask)\<close>; \<^verbatim>\<open>astype(np.uint8)\<close> keeps the low eight bits. A
  nested list with no channel does not record height and width; \<^verbatim>\<open>argmax\<close> raises on
  the empty channel axis then.\<close>

definition get_mask :: "real list list list \<Rightarrow> error + 8 word list list list" where
  "get_mask raw_mask =
    (if raw_mask = [] then Inl ValueError
     else
      (case reverse_one_hot (transpose_120 raw_mask) of
         Inl e \<Rightarrow> Inl e
       | Inr pred_mask \<Rightarrow>
          (case colour_code_segmentation pred_mask select_class_rgb_values of
             Inl e \<Rightarrow> Inl e
           | Inr pred_mask \<Rightarrow> Inr (map (map (map word_of_int)) pred_mask))))"

text \<open>
  \<^verbatim>\<open>post_unet(outputs, frame)\<close>. \<^verbatim>\<open>cv2.addWeighted(src1, alpha, src2, beta, gamma)\<close> is
  a parameter. \<^verbatim>\<open>outputs[0][0]\<close> raises on an empty list or an empty first array.
\<close>

definition post_unet_body ::
  "('f \<Rightarrow> real \<Rightarrow> 8 word list list list \<Rightarrow> real \<Rightarrow> real \<Rightarrow> 'f) \<Rightarrow> real \<Rightarrow> real
     \<Rightarrow> real list list list list list \<Rightarrow> 'f \<Rightarrow> error + 'f" where
  "post_unet_body addWeighted alpha beta outputs frame =
    (case outputs of
       [] \<Rightarrow> Inl IndexError
     | out # _ \<Rightarrow>
        (case out of
           [] \<Rightarrow> Inl IndexError
         | raw_mask # _ \<Rightarrow>
            (case get_mask raw_mask of
               Inl e \<Rightarrow> Inl e
             | Inr pred_mask \<Rightarrow> Inr (addWeighted frame alpha pred_mask beta 0.0))))"

definition post_unet ::
  "('f \<Rightarrow> real \<Rightarrow> 8 word list list list \<Rightarrow> real \<Rightarrow> real \<Rightarrow> 'f)
     \<Rightarrow> real list list list list list \<Rightarrow> 'f \<Rightarrow> (error + 'f) option" where
  "post_unet addWeighted outputs frame =
    (let alpha = 0.7;
         beta = 1.0 - alpha
     in while_true (\<lambda>fr. Return (post_unet_body addWeighted alpha beta outputs fr)) frame)"

section \<open>Classification and retrieval (\<^verbatim>\<open>resnet_post_process\<close>, \<^verbatim>\<open>post_resnet\<close>)\<close>

text \<open>\<^verbatim>\<open>np.exp(output)/sum(np.exp(output))\<close>.\<close>

definition softmax :: "real list \<Rightarrow> real list" where
  "softmax output = map (\<lambda>x. exp x / sum_list (map exp output)) output"

text \<open>
  \<^verbatim>\<open>resnet_post_process(result)\<close>. Each array of \<^verbatim>\<open>result\<close> is given by its numbers in
  row-major order, which is what \<^verbatim>\<open>reshape(-1)\<close> returns. \<^verbatim>\<open>dataset.get_crop_by_id\<close> is
  a parameter. \<^verbatim>\<open>sorted(output, reverse=True)\<close> sorts the softmax values themselves,
  and the loop variable \<^verbatim>\<open>cls_id\<close> runs over these values.
\<close>

definition resnet_post_process :: "(int \<Rightarrow> 'img) \<Rightarrow> real list list \<Rightarrow> error + 'img list" where
  "resnet_post_process get_crop_by_id result =
    (case result of
       [] \<Rightarrow> Inl IndexError
     | r # _ \<Rightarrow>
        (let output = softmax r;
             output_sorted = rev (sort output);
             top = take 10 output_sorted
         in Inr (map (\<lambda>cls_id. get_crop_by_id (py_int cls_id)) top)))"

text \<open>
  \<^verbatim>\<open>post_resnet(outputs, frame)\<close>. The pose estimator \<^verbatim>\<open>hm\<close>, called after its fields
  \<^verbatim>\<open>found_img\<close> and \<^verbatim>\<open>imgs_list\<close> are set, and \<^verbatim>\<open>draw_position\<close> (OpenCV text on the
  frame) are parameters.
\<close>

definition post_resnet_body ::
  "(int \<Rightarrow> 'img) \<Rightarrow> ('f \<Rightarrow> 'img list \<Rightarrow> 'sc \<times> 'an) \<Rightarrow> ('f \<Rightarrow> 'sc \<Rightarrow> 'an \<Rightarrow> 'f)
     \<Rightarrow> real list list \<Rightarrow> 'f \<Rightarrow> error + 'f" where
  "post_resnet_body get_crop_by_id hm draw_position outputs frame =
    (case resnet_post_process get_crop_by_id outputs of
       Inl e \<Rightarrow> Inl e
     | Inr images_list \<Rightarrow>
        (case hm frame images_list of
           (scale, angle) \<Rightarrow> Inr (draw_position frame scale angle)))"

definition post_resnet ::
  "(int \<Rightarrow> 'img) \<Rightarrow> ('f \<Rightarrow> 'img list \<Rightarrow> 'sc \<times> 'an) \<Rightarrow> ('f \<Rightarrow> 'sc \<Rightarrow> 'an \<Rightarrow> 'f)
     \<Rightarrow> real list list \<Rightarrow> 'f \<Rightarrow> (error + 'f) option" where
  "post_resnet get_crop_by_id hm draw_position outputs frame =
     while_true (\<lambda>fr. Return (post_resnet_body get_crop_by_id hm draw_position outputs fr)) frame"


section \<open>The entry points without their loops\<close>

text \<open>
  The straight-line functions that remain when the line \<^verbatim>\<open>while True:\<close> is deleted
  from \<^verbatim>\<open>post_yolov5\<close>, \<^verbatim>\<open>post_unet\<close> and \<^verbatim>\<open>post_resnet\<close> and the body is run once.
\<close>

definition post_yolov5_straight ::
  "config \<Rightarrow> ('f \<Rightarrow> real list list \<Rightarrow> real list \<Rightarrow> nat list \<Rightarrow> 'f)
     \<Rightarrow> (real list list \<Rightarrow> nat list \<Rightarrow> real list \<Rightarrow> 'd)
     \<Rightarrow> real list list list list \<Rightarrow> 'f \<Rightarrow> error + ('f \<times> 'd option)" where
  "post_yolov5_straight cfg draw format_dets outputs frame =
     post_yolov5_body cfg draw format_dets outputs frame"

definition post_unet_straight ::
  "('f \<Rightarrow> real \<Rightarrow> 8 word list list list \<Rightarrow> real \<Rightarrow> real \<Rightarrow> 'f)
     \<Rightarrow> real list list list list list \<Rightarrow> 'f \<Rightarrow> error + 'f" where
  "post_unet_straight addWeighted outputs frame =
    (let alpha = 0.7;
         beta = 1.0 - alpha
     in post_unet_body addWeighted alpha beta outputs frame)"

definition post_resnet_straight ::
  "(int \<Rightarrow> 'img) \<Rightarrow> ('f \<Rightarrow> 'img list \<Rightarrow> 'sc \<times> 'an) \<Rightarrow> ('f \<Rightarrow> 'sc \<Rightarrow> 'an \<Rightarrow> 'f)
     \<Rightarrow> real list list \<Rightarrow> 'f \<Rightarrow> error + 'f" where
  "post_resnet_straight get_crop_by_id hm draw_position outputs frame =
     post_resnet_body get_crop_by_id hm draw_position outputs frame"

section \<open>Concrete configurations and inputs\<close>

text \<open>A configuration with a network input of 640 pixels and both thresholds at one
  half.\<close>

definition cfg_half :: config where
  "cfg_half = \<lparr>net_size = 640, obj_thresh = 1 / 2, nms_thresh = 1 / 2\<rparr>"

section \<open>Shapes of detection tensors\<close>

text \<open>
  A detection tensor as \<^verbatim>\<open>post_yolov5\<close> hands it to \<^verbatim>\<open>yolov5_post_process\<close>: a square,
  non-empty grid of cells, three anchors per cell, at least \<open>k\<close> channels per anchor
  (four box parameters, the objectness and the class scores).
\<close>

definition grid_ok :: "nat \<Rightarrow> tensor4 \<Rightarrow> bool" where
  "grid_ok k input =
     (input \<noteq> [] \<and> list_all (\<lambda>r. length r = length input) input
      \<and> list_all (list_all (\<lambda>cell. length cell = 3)) input
      \<and> list_all (list_all (list_all (\<lambda>v. k \<le> length v))) input)"

text \<open>The array of shape \<open>(n, n, 3, _)\<close> whose vector at cell \<open>(i, j)\<close>, anchor \<open>a\<close> is
  \<open>g i j a\<close>.\<close>

definition grid_of :: "nat \<Rightarrow> (nat \<Rightarrow> nat \<Rightarrow> nat \<Rightarrow> real list) \<Rightarrow> tensor4" where
  "grid_of n g = map (\<lambda>i. map (\<lambda>j. map (\<lambda>a. g i j a) [0..<3]) [0..<n]) [0..<n]"

section \<open>Concrete detection inputs\<close>

text \<open>
  Accelerator outputs of 18 channels (three anchors of six channels: four box
  parameters, objectness, one class) on a grid of one cell: one of zeros, and one whose
  first anchor has box parameters one half, objectness \<open>2\<close> and class score \<open>3\<close>. Below,
  the tensors that \<^verbatim>\<open>post_yolov5\<close> makes of them.
\<close>

definition raw_zero :: "real list list list" where
  "raw_zero = replicate 18 [[0]]"

definition raw_hit :: "real list list list" where
  "raw_hit = [[[1 / 2]], [[1 / 2]], [[1 / 2]], [[1 / 2]], [[2]], [[3]]] @ replicate 12 [[0]]"

definition zero_grid :: tensor4 where
  "zero_grid = [[[[0, 0, 0, 0, 0, 0], [0, 0, 0, 0, 0, 0], [0, 0, 0, 0, 0, 0]]]]"

definition hit_grid :: tensor4 where
  "hit_grid = [[[[1 / 2, 1 / 2, 1 / 2, 1 / 2, 2, 3], [0, 0, 0, 0, 0, 0], [0, 0, 0, 0, 0, 0]]]]"

section \<open>Intersection over union as the specification names it\<close>

text \<open>
  The glossary of the specification calls IoU the overlap ratio between the areas of two
  boxes: the area of the intersection over the area of the union, for boxes in corner
  form. Unlike \<open>ovr\<close> it pads nothing.
\<close>

definition spec_iou :: "real list \<Rightarrow> real list \<Rightarrow> real" where
  "spec_iou bi bj =
    (let iw = max 0 (min (bi ! 2) (bj ! 2) - max (bi ! 0) (bj ! 0));
         ih = max 0 (min (bi ! 3) (bj ! 3) - max (bi ! 1) (bj ! 1));
         i = iw * ih
     in i / (areas bi + areas bj - i))"


section \<open>Properties of the loops\<close>

lemma while_true_Return: "while_true (\<lambda>s. Return (f s)) s = Some (f s)"
  by (subst while_true.simps) simp

text \<open>
  Claim C9. The body of the \<^verbatim>\<open>while True\<close> loop of each entry point ends in an
  unconditional \<^verbatim>\<open>return\<close>, so the loop returns in its first iteration: \<^verbatim>\<open>post_yolov5\<close>,
  \<^verbatim>\<open>post_unet\<close> and \<^verbatim>\<open>post_resnet\<close> return, on every input, exactly what the
  straight-line function without the loop returns (a result or the exception raised).
\<close>

theorem entry_point_loops_return_first_iteration:
  "post_yolov5 cfg draw format_dets outputs frame
     = Some (post_yolov5_straight cfg draw format_dets outputs frame)
   \<and> post_unet addWeighted outputs_u frame_u
     = Some (post_unet_straight addWeighted outputs_u frame_u)
   \<and> post_resnet get_crop_by_id hm draw_position outputs_r frame_r
     = Some (post_resnet_straight get_crop_by_id hm draw_position outputs_r frame_r)"
  by (simp add: post_yolov5_def post_yolov5_straight_def post_unet_def post_unet_straight_def
        post_resnet_def post_resnet_straight_def while_true_Return Let_def)

section \<open>Properties of the confidence filter\<close>

lemma np_where_iff: "i \<in> set (np_where p xs) \<longleftrightarrow> i < length xs \<and> p (xs ! i)"
  by (auto simp: np_where_def)

lemma length_take_idx: "length (take_idx xs idx) = length idx"
  by (simp add: take_idx_def)

lemma nth_take_idx: "k < length idx \<Longrightarrow> take_idx xs idx ! k = xs ! (idx ! k)"
  by (simp add: take_idx_def)

lemma np_max_Max: "xs \<noteq> [] \<Longrightarrow> np_max xs = Max (set xs)"
proof -
  assume "xs \<noteq> []"
  then obtain a as where xs: "xs = a # as" by (cases xs) auto
  have "foldl max a as = fold max as a"
    by (simp add: foldl_conv_fold max.commute)
  moreover have "Max (set (a # as)) = fold max as a"
    by (rule Max.set_eq_fold)
  ultimately show ?thesis
    by (simp add: np_max_def xs)
qed

lemma np_max_in: "xs \<noteq> [] \<Longrightarrow> np_max xs \<in> set xs"
  by (simp add: np_max_Max)

lemma np_max_ge: "x \<in> set xs \<Longrightarrow> x \<le> np_max xs"
  by (cases "xs = []") (simp_all add: np_max_Max)

text \<open>
  Claim C2, as stated: the filter never returns an entry whose objectness times its
  maximum class probability is below \<^verbatim>\<open>obj_thresh\<close>. This fails: with the threshold at
  one half, an entry with objectness one half and maximum class probability one half
  passes both tests and is returned with score one quarter.
\<close>

theorem filter_boxes_returns_product_below_thresh:
  "filter_boxes cfg_half [[[[0, 0, 1, 1]]]] [[[[1 / 2]]]] [[[[1 / 2]]]]
     = Inr ([[0, 0, 1, 1]], [0], [1 / 4])
   \<and> (1 / 2) * (1 / 2) < obj_thresh cfg_half"
  by (simp add: filter_boxes_def cfg_half_def np_where_def take_idx_def np_max_def
        np_argmax_def)

lemma filter_boxes_entries:
  assumes "filter_boxes cfg boxes box_confidences box_class_probs = Inr (bs, cs, ss)"
  shows "length bs = length ss \<and> length cs = length ss \<and>
     (\<forall>k<length ss. \<exists>i<length (concat (concat (concat box_confidences))).
         obj_thresh cfg \<le> concat (concat (concat box_confidences)) ! i
       \<and> obj_thresh cfg \<le> np_max (concat (concat box_class_probs) ! i)
       \<and> ss ! k = np_max (concat (concat box_class_probs) ! i)
                    * concat (concat (concat box_confidences)) ! i
       \<and> cs ! k = np_argmax (concat (concat box_class_probs) ! i)
       \<and> bs ! k = concat (concat boxes) ! i)"
proof -
  define fb where "fb = concat (concat boxes)"
  define fc where "fc = concat (concat (concat box_confidences))"
  define fp where "fp = concat (concat box_class_probs)"
  define pos where "pos = np_where (\<lambda>c. obj_thresh cfg \<le> c) fc"
  define cms where "cms = map np_max (take_idx fp pos)"
  define cpos where "cpos = np_where (\<lambda>m. obj_thresh cfg \<le> m) cms"
  from assms have
    bs: "bs = take_idx (take_idx fb pos) cpos" and
    cs: "cs = take_idx (map np_argmax (take_idx fp pos)) cpos" and
    ss: "ss = take_idx (map2 (*) cms (take_idx fc pos)) cpos"
    by (auto simp: filter_boxes_def Let_def fb_def fc_def fp_def pos_def cms_def cpos_def
        split: if_splits)
  have len: "length bs = length ss" "length cs = length ss"
    by (simp_all add: bs cs ss length_take_idx)
  have "\<exists>i<length fc. obj_thresh cfg \<le> fc ! i \<and> obj_thresh cfg \<le> np_max (fp ! i)
       \<and> ss ! k = np_max (fp ! i) * fc ! i \<and> cs ! k = np_argmax (fp ! i) \<and> bs ! k = fb ! i"
    if k: "k < length ss" for k
  proof -
    from k have kc: "k < length cpos" by (simp add: ss length_take_idx)
    then have "cpos ! k \<in> set cpos" by simp
    then have j: "cpos ! k < length cms" "obj_thresh cfg \<le> cms ! (cpos ! k)"
      by (simp_all add: cpos_def np_where_iff)
    define j where "j = cpos ! k"
    from j have jl: "j < length pos" and jm: "obj_thresh cfg \<le> cms ! j"
      by (simp_all add: j_def cms_def length_take_idx)
    then have "pos ! j \<in> set pos" by simp
    then have i: "pos ! j < length fc" "obj_thresh cfg \<le> fc ! (pos ! j)"
      by (simp_all add: pos_def np_where_iff)
    have cmsj: "cms ! j = np_max (fp ! (pos ! j))"
      using jl by (simp add: cms_def length_take_idx nth_take_idx)
    have "ss ! k = np_max (fp ! (pos ! j)) * fc ! (pos ! j)"
      using kc jl by (simp add: ss nth_take_idx j_def[symmetric] cms_def length_take_idx)
    moreover have "cs ! k = np_argmax (fp ! (pos ! j))"
      using kc jl by (simp add: cs nth_take_idx j_def[symmetric] length_take_idx)
    moreover have "bs ! k = fb ! (pos ! j)"
      using kc jl by (simp add: bs nth_take_idx j_def[symmetric] length_take_idx)
    ultimately show ?thesis
      using i jm cmsj by auto
  qed
  with len show ?thesis
    unfolding fb_def fc_def fp_def by blast
qed

text \<open>
  Claim C2, amended: the filter tests the two factors separately. Every entry it
  returns comes from an input entry whose objectness is at least \<^verbatim>\<open>obj_thresh\<close> and
  whose maximum class probability is at least \<^verbatim>\<open>obj_thresh\<close>; its score is the product
  of the two, its class the first index of the maximum, its box the entry's box.
\<close>

theorem filter_boxes_two_gates:
  assumes "filter_boxes cfg boxes box_confidences box_class_probs = Inr (bs, cs, ss)"
  shows "length bs = length ss \<and> length cs = length ss \<and>
     (\<forall>k<length ss. \<exists>i<length (concat (concat (concat box_confidences))).
         obj_thresh cfg \<le> concat (concat (concat box_confidences)) ! i
       \<and> obj_thresh cfg \<le> np_max (concat (concat box_class_probs) ! i)
       \<and> ss ! k = np_max (concat (concat box_class_probs) ! i)
                    * concat (concat (concat box_confidences)) ! i
       \<and> cs ! k = np_argmax (concat (concat box_class_probs) ! i)
       \<and> bs ! k = concat (concat boxes) ! i)"
  using assms by (rule filter_boxes_entries)

theorem filter_boxes_two_gates_witness:
  "filter_boxes cfg_half [[[[0, 0, 1, 1]]]] [[[[1 / 2]]]] [[[[1 / 2]]]]
     = Inr ([[0, 0, 1, 1]], [0], [1 / 4])
   \<and> obj_thresh cfg_half \<le> concat (concat (concat [[[[1 / 2]]]])) ! 0
   \<and> obj_thresh cfg_half \<le> np_max (concat (concat [[[[1 / 2]]]]) ! 0)
   \<and> [1 / 4] ! 0 = np_max (concat (concat [[[[1 / 2]]]]) ! 0)
                    * concat (concat (concat [[[[1 / 2]]]])) ! 0"
proof -
  have h: "filter_boxes cfg_half [[[[0, 0, 1, 1]]]] [[[[1 / 2]]]] [[[[1 / 2]]]]
     = Inr ([[0, 0, 1, 1]], [0], [1 / 4])"
    by (simp add: filter_boxes_def cfg_half_def np_where_def take_idx_def np_max_def
        np_argmax_def)
  from filter_boxes_two_gates [OF h] h show ?thesis
    by simp
qed

section \<open>Properties of non-maximum suppression\<close>

lemma inter_sym: "inter a b = inter b a"
  by (simp add: inter_def Let_def max.commute min.commute)

lemma ovr_sym: "ovr a b = ovr b a"
  by (simp add: ovr_def inter_sym [of a b] add.commute)

lemma ovr_le_sym: "ovr_le cfg a b = ovr_le cfg b a"
  by (simp add: ovr_le_def ovr_sym [of a b] inter_sym [of a b] add.commute)




text \<open>Where the padded intersection is smaller than the sum of the two areas, \<^verbatim>\<open>ovr\<close> is
  at least the IoU, so an IoU above the threshold is an \<^verbatim>\<open>ovr\<close> above the threshold.\<close>

lemma spec_iou_le_ovr:
  assumes "0 < areas bi + areas bj - inter bi bj"
  shows "spec_iou bi bj \<le> ovr bi bj"
proof -
  define dx where "dx = min (bi ! 2) (bj ! 2) - max (bi ! 0) (bj ! 0)"
  define dy where "dy = min (bi ! 3) (bj ! 3) - max (bi ! 1) (bj ! 1)"
  define I where "I = max 0 dx * max 0 dy"
  define I' where "I' = max 0 (dx + 0.00001) * max 0 (dy + 0.00001)"
  define A where "A = areas bi + areas bj"
  have s: "spec_iou bi bj = I / (A - I)"
    by (simp add: spec_iou_def Let_def I_def dx_def dy_def A_def)
  have p: "inter bi bj = I'"
    by (simp add: inter_def Let_def I'_def dx_def dy_def)
  have I0: "0 \<le> I" by (simp add: I_def)
  have II: "I \<le> I'"
    unfolding I_def I'_def by (rule mult_mono) auto
  from assms have d: "0 < A - I'" by (simp add: p A_def)
  have "I / (A - I) \<le> I' / (A - I')"
    by (rule frac_le) (use I0 II d in auto)
  then show ?thesis
    by (simp add: s ovr_def p A_def)
qed



lemma nms_loop_subset: "set (nms_loop cfg boxes order) \<subseteq> set order"
  by (induction cfg boxes order rule: nms_loop.induct) auto

lemma nms_loop_distinct: "distinct order \<Longrightarrow> distinct (nms_loop cfg boxes order)"
proof (induction cfg boxes order rule: nms_loop.induct)
  case (1 cfg boxes)
  then show ?case by simp
next
  case (2 cfg boxes i order)
  then show ?case
    using nms_loop_subset [of cfg boxes "filter (\<lambda>j. ovr_le cfg (boxes ! i) (boxes ! j)) order"]
    by auto
qed

lemma nms_loop_pairwise:
  "sorted_wrt (\<lambda>i j. ovr_le cfg (boxes ! i) (boxes ! j)) (nms_loop cfg boxes order)"
proof (induction cfg boxes order rule: nms_loop.induct)
  case (1 cfg boxes)
  then show ?case by simp
next
  case (2 cfg boxes i order)
  then show ?case
    using nms_loop_subset [of cfg boxes "filter (\<lambda>j. ovr_le cfg (boxes ! i) (boxes ! j)) order"]
    by auto
qed

lemma nms_loop_fixpoint:
  assumes "distinct order"
    and "\<And>i j. i \<in> set order \<Longrightarrow> j \<in> set order \<Longrightarrow> i \<noteq> j \<Longrightarrow> ovr_le cfg (boxes ! i) (boxes ! j)"
  shows "nms_loop cfg boxes order = order"
  using assms
proof (induction order)
  case Nil
  then show ?case by simp
next
  case (Cons i order)
  have "filter (\<lambda>j. ovr_le cfg (boxes ! i) (boxes ! j)) order = order"
    using Cons.prems by (auto simp: filter_id_conv)
  moreover have "nms_loop cfg boxes order = order"
    using Cons by auto
  ultimately show ?case by simp
qed

lemma set_argsort: "set (argsort scores) = {0..<length scores}"
  by (simp add: argsort_def)

lemma distinct_argsort: "distinct (argsort scores)"
  by (simp add: argsort_def)

lemma mset_argsort: "mset (argsort scores) = mset [0..<length scores]"
  by (simp add: argsort_def)

text \<open>
  Claim C5. Suppression applied to the boxes and scores it has kept keeps all of them:
  the second run returns every index of the kept arrays once, so the boxes and the
  scores selected by the second run are, as multisets, the boxes and scores kept by the
  first. (The order may differ where scores are equal.)
\<close>

theorem nms_boxes_idempotent:
  assumes "nms_boxes cfg boxes scores = Inr keep"
  shows "\<exists>keep'. nms_boxes cfg (take_idx boxes keep) (take_idx scores keep) = Inr keep'
           \<and> mset keep' = mset [0..<length keep]
           \<and> mset (take_idx (take_idx boxes keep) keep') = mset (take_idx boxes keep)
           \<and> mset (take_idx (take_idx scores keep) keep') = mset (take_idx scores keep)"
proof -
  from assms have rows: "list_all (\<lambda>r. 4 \<le> length r) boxes"
    and len: "length scores \<le> length boxes"
    and keep: "keep = nms_loop cfg boxes (rev (argsort scores))"
    by (auto simp: nms_boxes_def split: if_splits)
  define bs where "bs = take_idx boxes keep"
  define ss where "ss = take_idx scores keep"
  define n where "n = length keep"
  have keep_sub: "set keep \<subseteq> {0..<length scores}"
    using nms_loop_subset [of cfg boxes "rev (argsort scores)"] by (simp add: keep set_argsort)
  have keep_dist: "distinct keep"
    by (simp add: keep nms_loop_distinct distinct_argsort)
  have keep_pair: "sorted_wrt (\<lambda>i j. ovr_le cfg (boxes ! i) (boxes ! j)) keep"
    by (simp add: keep nms_loop_pairwise)
  have rows': "list_all (\<lambda>r. 4 \<le> length r) bs"
    using rows keep_sub len by (auto simp: bs_def take_idx_def list_all_iff)
  have lens: "length bs = n" "length ss = n"
    by (simp_all add: bs_def ss_def n_def length_take_idx)
  have compat: "ovr_le cfg (bs ! i) (bs ! j)" if "i < n" "j < n" "i \<noteq> j" for i j
  proof -
    have eq: "bs ! i = boxes ! (keep ! i)" "bs ! j = boxes ! (keep ! j)"
      using that by (simp_all add: bs_def n_def nth_take_idx)
    show ?thesis
    proof (cases "i < j")
      case True
      then show ?thesis
        using keep_pair that by (simp add: eq sorted_wrt_iff_nth_less n_def)
    next
      case False
      with that have "j < i" by simp
      then have "ovr_le cfg (boxes ! (keep ! j)) (boxes ! (keep ! i))"
        using keep_pair that by (simp add: sorted_wrt_iff_nth_less n_def)
      then show ?thesis
        by (simp add: eq ovr_le_sym [of cfg "boxes ! (keep ! i)"])
    qed
  qed
  define keep' where "keep' = rev (argsort ss)"
  have set': "set keep' = {0..<n}"
    by (simp add: keep'_def set_argsort lens)
  have "nms_loop cfg bs keep' = keep'"
  proof (rule nms_loop_fixpoint)
    show "distinct keep'" by (simp add: keep'_def distinct_argsort)
  next
    fix i j assume "i \<in> set keep'" "j \<in> set keep'" "i \<noteq> j"
    then show "ovr_le cfg (bs ! i) (bs ! j)"
      using compat set' by simp
  qed
  then have run: "nms_boxes cfg bs ss = Inr keep'"
    using rows' lens by (simp add: nms_boxes_def keep'_def)
  have perm: "mset keep' = mset [0..<n]"
    by (simp add: keep'_def mset_argsort lens)
  have "mset (take_idx xs keep') = mset xs" if "length xs = n" for xs :: "'a list"
  proof -
    have "mset (take_idx xs keep') = image_mset (\<lambda>i. xs ! i) (mset keep')"
      by (simp add: take_idx_def)
    also have "\<dots> = mset (map (\<lambda>i. xs ! i) [0..<n])"
      by (simp add: perm)
    also have "\<dots> = mset xs"
      using that map_nth [of xs] by (simp only:)
    finally show ?thesis .
  qed
  from this [of bs] this [of ss] run perm show ?thesis
    unfolding bs_def ss_def n_def using lens bs_def ss_def n_def by auto
qed

theorem nms_boxes_idempotent_witness:
  "nms_boxes cfg_half [[0, 0, 10, 10], [1, 1, 10, 10], [20, 20, 30, 30]]
       [6 / 10, 9 / 10, 5 / 10] = Inr [1, 2]
   \<and> (\<exists>keep'. nms_boxes cfg_half
          (take_idx [[0, 0, 10, 10], [1, 1, 10, 10], [20, 20, 30, 30]] [1, 2])
          (take_idx [6 / 10, 9 / 10, 5 / 10] [1, 2]) = Inr keep'
        \<and> mset keep' = mset [0..<length [1 :: nat, 2]])"
proof -
  have h: "nms_boxes cfg_half [[0, 0, 10, 10], [1, 1, 10, 10], [20, 20, 30, 30]]
       [6 / 10, 9 / 10, 5 / 10] = Inr [1, 2]"
    by code_simp
  from nms_boxes_idempotent [OF h] h show ?thesis
    by blast
qed

section \<open>Properties of the classification post-process\<close>

lemma sum_exp_nonneg: "0 \<le> sum_list (map exp (xs :: real list))"
  by (induction xs) (auto intro: add_nonneg_nonneg)

lemma sum_exp_pos: "xs \<noteq> [] \<Longrightarrow> 0 < sum_list (map exp (xs :: real list))"
  using sum_exp_nonneg by (cases xs) (auto intro: add_pos_nonneg)

lemma softmax_range:
  assumes "2 \<le> length r" and "p \<in> set (softmax r)"
  shows "0 < p \<and> p < 1"
proof -
  from assms(2) obtain a where a: "a \<in> set r" and p: "p = exp a / sum_list (map exp r)"
    by (auto simp: softmax_def)
  from a obtain ys zs where r: "r = ys @ a # zs"
    by (auto dest: split_list)
  with assms(1) have "ys @ zs \<noteq> []" by (cases ys) auto
  then have "0 < sum_list (map exp (ys @ zs))" by (rule sum_exp_pos)
  then have lt: "exp a < sum_list (map exp r)"
    by (simp add: r)
  have pos: "0 < exp a" by simp
  with lt have S: "0 < sum_list (map exp r)" by linarith
  from pos S lt show ?thesis
    by (simp add: p divide_less_eq)
qed

lemma py_int_unit: "0 \<le> p \<Longrightarrow> p < 1 \<Longrightarrow> py_int p = 0"
  by (simp add: py_int_def floor_eq_iff)

lemma resnet_post_process_ids_zero:
  assumes "2 \<le> length r"
  shows "resnet_post_process get_crop_by_id (r # rest)
           = Inr (replicate (min 10 (length r)) (get_crop_by_id 0))"
proof -
  define top where "top = take 10 (rev (sort (softmax r)))"
  have len: "length top = min 10 (length r)"
    by (simp add: top_def softmax_def min.commute)
  have "set top \<subseteq> set (softmax r)"
    unfolding top_def using set_take_subset [of 10 "rev (sort (softmax r))"] by simp
  then have "\<forall>p\<in>set top. py_int p = 0"
    using softmax_range [OF assms] py_int_unit by (meson less_imp_le subsetD)
  then have "map (\<lambda>cls_id. get_crop_by_id (py_int cls_id)) top
             = replicate (length top) (get_crop_by_id 0)"
    by (simp add: map_replicate_const [symmetric] cong: map_cong)
  then show ?thesis
    by (simp add: resnet_post_process_def Let_def top_def [symmetric] len)
qed

text \<open>
  Claim C3 says that the top ten class indices are taken and one reference image is
  retrieved per index. The code sorts the softmax values, not their indices, and passes
  \<^verbatim>\<open>int\<close> of each value to the dataset: for the logits \<open>0, 1, 2\<close> of three classes it
  asks three times for the image of id \<open>0\<close>, where the class indices in descending
  order are \<open>2, 1, 0\<close>.
\<close>

theorem resnet_post_process_fetches_id_zero:
  "resnet_post_process get_crop_by_id [[0, 1, 2]]
     = Inr [get_crop_by_id 0, get_crop_by_id 0, get_crop_by_id 0]"
  using resnet_post_process_ids_zero [of "[0, 1, 2]" get_crop_by_id "[]"]
  by (simp add: numeral_3_eq_3)

section \<open>Properties of the segmentation post-process\<close>

lemma length_takeWhile_less:
  "\<exists>x\<in>set xs. \<not> P x \<Longrightarrow> length (takeWhile P xs) < length xs"
  by (induction xs) auto

lemma takeWhile_prefix_holds: "k < length (takeWhile P xs) \<Longrightarrow> P (xs ! k)"
proof -
  assume k: "k < length (takeWhile P xs)"
  then have "takeWhile P xs ! k \<in> set (takeWhile P xs)" by simp
  then have "P (takeWhile P xs ! k)" by (rule set_takeWhileD [THEN conjunct2])
  with k show ?thesis by (simp add: takeWhile_nth)
qed

lemma np_argmax_less: "xs \<noteq> [] \<Longrightarrow> np_argmax xs < length xs"
  unfolding np_argmax_def
  by (rule length_takeWhile_less) (use np_max_in in auto)

lemma np_argmax_first:
  assumes "xs \<noteq> []"
  shows "xs ! np_argmax xs = np_max xs \<and> (\<forall>k<np_argmax xs. xs ! k < np_max xs)"
proof -
  have lt: "np_argmax xs < length xs" using assms by (rule np_argmax_less)
  then have "\<not> (xs ! np_argmax xs \<noteq> np_max xs)"
    unfolding np_argmax_def by (rule nth_length_takeWhile)
  moreover have "xs ! k < np_max xs" if "k < np_argmax xs" for k
  proof -
    have "xs ! k \<noteq> np_max xs"
      using that unfolding np_argmax_def by (rule takeWhile_prefix_holds)
    moreover have "xs ! k \<le> np_max xs"
      using that lt by (simp add: np_max_ge)
    ultimately show ?thesis by simp
  qed
  ultimately show ?thesis by blast
qed

lemma transpose_120_shape:
  assumes "raw_mask \<noteq> []"
    and "list_all (\<lambda>ch. length ch = H \<and> list_all (\<lambda>row. length row = W) ch) raw_mask"
  shows "transpose_120 raw_mask =
     map (\<lambda>h. map (\<lambda>w. map (\<lambda>c. raw_mask ! c ! h ! w) [0..<length raw_mask]) [0..<W]) [0..<H]"
proof -
  from assms obtain ch rest where raw: "raw_mask = ch # rest" by (cases raw_mask) auto
  with assms(2) have ch: "length ch = H" "list_all (\<lambda>row. length row = W) ch" by simp_all
  show ?thesis
  proof (cases "H = 0")
    case True
    with ch show ?thesis by (simp add: transpose_120_def raw)
  next
    case False
    with ch obtain row rows where "ch = row # rows" by (cases ch) auto
    with ch have "(case concat raw_mask of [] \<Rightarrow> 0 | a # _ \<Rightarrow> length a) = W"
      by (simp add: raw)
    with ch show ?thesis by (simp add: transpose_120_def raw Let_def)
  qed
qed

text \<open>
  \<^verbatim>\<open>post_unet\<close> on a raw tensor of \<open>C \<ge> 1\<close> channels, each of \<open>H\<close> rows of \<open>W\<close> numbers:
  the pixel \<open>(h, w)\<close> of the mask is the entry of the two-colour table at the first index
  of the maximum of the channel values at \<open>(h, w)\<close>, and the lookup raises when that
  index is outside the table.
\<close>

lemma post_unet_characterised:
  assumes "raw_mask \<noteq> []"
    and "list_all (\<lambda>ch. length ch = H \<and> list_all (\<lambda>row. length row = W) ch) raw_mask"
  shows "post_unet addWeighted ((raw_mask # batch) # outputs) frame =
     Some (if list_all (\<lambda>h. list_all (\<lambda>w.
                 np_argmax (map (\<lambda>c. raw_mask ! c ! h ! w) [0..<length raw_mask]) < 2)
                 [0..<W]) [0..<H]
           then Inr (addWeighted frame 0.7
                  (map (\<lambda>h. map (\<lambda>w. map word_of_int
                      (select_class_rgb_values
                         ! np_argmax (map (\<lambda>c. raw_mask ! c ! h ! w) [0..<length raw_mask])))
                      [0..<W]) [0..<H])
                  0.3 0)
           else Inl IndexError)"
proof -
  let ?px = "\<lambda>h w. map (\<lambda>c. raw_mask ! c ! h ! w) [0..<length raw_mask]"
  have tr: "transpose_120 raw_mask = map (\<lambda>h. map (\<lambda>w. ?px h w) [0..<W]) [0..<H]"
    using assms by (rule transpose_120_shape)
  have ne: "?px h w \<noteq> []" for h w
    using assms(1) by simp
  have roh: "reverse_one_hot (transpose_120 raw_mask)
      = Inr (map (\<lambda>h. map (\<lambda>w. np_argmax (?px h w)) [0..<W]) [0..<H])"
    using ne by (simp add: reverse_one_hot_def tr list_all_iff comp_def)
  have len: "length select_class_rgb_values = 2"
    by (simp add: select_class_rgb_values_def)
  show ?thesis
    using assms(1)
    by (simp add: post_unet_def while_true_Return post_unet_body_def get_mask_def roh
        colour_code_segmentation_def len list_all_iff comp_def Let_def)
qed


text \<open>
  Claim C8, as stated, speaks of every tensor of channels \<open>\<times>\<close> height \<open>\<times>\<close> width. The
  colour table has two entries: on a tensor of three channels and one pixel whose
  largest value is in the third channel the lookup raises and nothing is blended.
\<close>

theorem post_unet_third_channel_raises:
  "post_unet (\<lambda>fr a m b g. (a, m, b, g) # fr) [[[[[0]], [[1]], [[2]]]]] []
     = Some (Inl IndexError)"
proof -
  have h1: "[[[0]], [[1]], [[2 :: real]]] \<noteq> []"
    by simp
  have h2: "list_all (\<lambda>ch. length ch = 1 \<and> list_all (\<lambda>row. length row = 1) ch)
         [[[0]], [[1]], [[2 :: real]]]"
    by simp
  from post_unet_characterised [OF h1 h2, of "\<lambda>fr a m b g. (a, m, b, g) # fr" "[]" "[]" "[]"]
  show ?thesis
    by (simp add: np_argmax_def np_max_def upt_rec [of 0] upt_rec [of 1] upt_rec [of 2]
        numeral_3_eq_3 numeral_2_eq_2)
qed

text \<open>
  Claim C8, amended. For a raw tensor of one or two channels, each of \<open>H\<close> rows of \<open>W\<close>
  numbers, and any frame, \<^verbatim>\<open>post_unet\<close> transposes the tensor to height \<open>\<times>\<close> width \<open>\<times>\<close>
  channels, takes at each pixel the first index of the maximum over the channels, maps
  it through the fixed two-colour table, and returns the blend of the frame, with
  weight \<open>0.7\<close>, and the colour mask, with weight \<open>1.0 - 0.7\<close>. Nothing is thresholded
  or suppressed.
\<close>

theorem post_unet_two_channels_blend:
  assumes "raw_mask \<noteq> []" and "length raw_mask \<le> 2"
    and "list_all (\<lambda>ch. length ch = H \<and> list_all (\<lambda>row. length row = W) ch) raw_mask"
  shows "post_unet addWeighted ((raw_mask # batch) # outputs) frame =
     Some (Inr (addWeighted frame 0.7
                  (map (\<lambda>h. map (\<lambda>w. map word_of_int
                      (select_class_rgb_values
                         ! np_argmax (map (\<lambda>c. raw_mask ! c ! h ! w) [0..<length raw_mask])))
                      [0..<W]) [0..<H])
                  (1.0 - 0.7) 0))"
proof -
  have "np_argmax (map (\<lambda>c. raw_mask ! c ! h ! w) [0..<length raw_mask]) < 2" for h w
  proof -
    have "map (\<lambda>c. raw_mask ! c ! h ! w) [0..<length raw_mask] \<noteq> []"
      using assms(1) by simp
    from np_argmax_less [OF this] assms(2) show ?thesis
      by simp
  qed
  then have "list_all (\<lambda>h. list_all (\<lambda>w.
                 np_argmax (map (\<lambda>c. raw_mask ! c ! h ! w) [0..<length raw_mask]) < 2)
                 [0..<W]) [0..<H]"
    by (simp add: list_all_iff)
  with post_unet_characterised [OF assms(1,3), of addWeighted batch outputs frame]
  show ?thesis
    by simp
qed

theorem post_unet_two_channels_blend_witness:
  "[[[0, 1], [2, 3]], [[1, 0], [2, 4 :: real]]] \<noteq> []
   \<and> length [[[0, 1], [2, 3]], [[1, 0], [2, 4 :: real]]] \<le> 2
   \<and> list_all (\<lambda>ch. length ch = 2 \<and> list_all (\<lambda>row. length row = 2) ch)
         [[[0, 1], [2, 3]], [[1, 0], [2, 4 :: real]]]
   \<and> post_unet (\<lambda>fr a m b g. (a, m, b, g) # fr)
         [[[[[0, 1], [2, 3]], [[1, 0], [2, 4]]]]] []
       = Some (Inr [(7 / 10, [[[255, 255, 255], [0, 0, 0]], [[0, 0, 0], [255, 255, 255]]],
                     3 / 10, 0)])"
proof -
  have h1: "[[[0, 1], [2, 3]], [[1, 0], [2, 4 :: real]]] \<noteq> []"
    by simp
  have h2: "length [[[0, 1], [2, 3]], [[1, 0], [2, 4 :: real]]] \<le> 2"
    by simp
  have h3: "list_all (\<lambda>ch. length ch = 2 \<and> list_all (\<lambda>row. length row = 2) ch)
         [[[0, 1], [2, 3]], [[1, 0], [2, 4 :: real]]]"
    by simp
  from post_unet_two_channels_blend [OF h1 h2 h3, of "\<lambda>fr a m b g. (a, m, b, g) # fr" "[]" "[]" "[]"]
    h1 h2 h3
  show ?thesis
    by (simp add: np_argmax_def np_max_def select_class_rgb_values_def
        upt_rec [of 0] upt_rec [of 1] numeral_2_eq_2)
qed

section \<open>Properties of box decoding\<close>

lemma grid_ok_index_form:
  assumes "grid_ok k input"
  shows "input = grid_of (length input) (\<lambda>i j a. input ! i ! j ! a)"
proof -
  have r: "length (input ! i) = length input" if "i < length input" for i
    using assms that by (simp add: grid_ok_def list_all_length)
  have c: "length (input ! i ! j) = 3" if "i < length input" "j < length input" for i j
    using assms that r by (simp add: grid_ok_def list_all_length)
  show ?thesis
    unfolding grid_of_def
    by (rule nth_equalityI) (auto simp: r c intro!: nth_equalityI)
qed

lemma map3_grid_of: "map (map (map h)) (grid_of n g) = grid_of n (\<lambda>i j a. h (g i j a))"
  by (simp add: grid_of_def comp_def)

lemma tmap_grid_of: "tmap f (grid_of n g) = grid_of n (\<lambda>i j a. map f (g i j a))"
  by (simp add: tmap_def grid_of_def comp_def)

lemma map2_same: "map2 f (map g xs) (map h xs) = map (\<lambda>x. f (g x) (h x)) xs"
  by (simp add: zip_map_map zip_same_conv_map comp_def)

lemma tmap2_grid_of:
  "tmap2 f (grid_of n g) (grid_of n g') = grid_of n (\<lambda>i j a. map2 f (g i j a) (g' i j a))"
  by (simp add: tmap2_def grid_of_def map2_same)

lemma concat_last_grid_of:
  "concat_last (grid_of n g) (grid_of n g') = grid_of n (\<lambda>i j a. g i j a @ g' i j a)"
  by (simp add: concat_last_def grid_of_def map2_same)

lemma replicate_3: "replicate 3 x = map (\<lambda>a. x) [0..<3]"
  by (simp add: map_replicate_const)

lemma grid_col_grid_of: "grid_col n n = grid_of n (\<lambda>i j a. [real j])"
  by (simp add: grid_col_def grid_of_def replicate_3)

lemma grid_row_grid_of: "grid_row n n = grid_of n (\<lambda>i j a. [real i])"
  by (simp add: grid_row_def grid_of_def replicate_3)

lemma anchors_mult_grid_of:
  assumes "length anc = 3"
  shows "map (map (\<lambda>cell. map2 (map2 (*)) cell anc)) (grid_of n g)
     = grid_of n (\<lambda>i j a. map2 (*) (g i j a) (anc ! a))"
proof -
  have "anc = map (\<lambda>a. anc ! a) [0..<3]"
    using assms map_nth [of anc] by simp
  then have "map2 (map2 (*)) (map (\<lambda>a. g i j a) [0..<3]) anc
      = map (\<lambda>a. map2 (*) (g i j a) (anc ! a)) [0..<3]" for i j
    using map2_same [of "map2 (*)" "\<lambda>a. g i j a" "[0..<3]" "\<lambda>a. anc ! a"] by simp
  then show ?thesis
    by (simp add: grid_of_def comp_def)
qed

lemma list_all3_grid_of:
  "list_all (list_all (list_all P)) (grid_of n g) \<longleftrightarrow> (\<forall>i<n. \<forall>j<n. \<forall>a<3. P (g i j a))"
  by (auto simp: grid_of_def list_all_iff)

lemma list_all2_grid_of:
  "list_all (list_all P) (grid_of n g) \<longleftrightarrow> (\<forall>i<n. \<forall>j<n. P (map (g i j) [0..<3]))"
  by (auto simp: grid_of_def list_all_iff)


lemma length_grid_of: "length (grid_of n g) = n"
  by (simp add: grid_of_def)

lemma grid_w_grid_of: "0 < n \<Longrightarrow> (case grid_of n g of [] \<Rightarrow> 0 | r # _ \<Rightarrow> length r) = n"
  by (simp add: grid_of_def upt_conv_Cons)

lemma rows_grid_of: "list_all (\<lambda>r. length r = n) (grid_of n g)"
  by (simp add: grid_of_def list_all_iff)

lemma process_grid_of:
  assumes n: "0 < n"
    and g: "\<forall>i<n. \<forall>j<n. \<forall>a<3. 5 \<le> length (g i j a)"
    and msk: "length msk = 3" "list_all (\<lambda>i. i < length anchors) msk"
    and anc: "list_all (\<lambda>a. length a = 2) (map (\<lambda>i. anchors ! i) msk)"
  shows "process cfg (grid_of n g) msk anchors =
    Inr (grid_of n (\<lambda>i j a.
           map (\<lambda>x. x * real_of_int (py_int (net_size cfg / real n)))
             (map2 (+) (map (\<lambda>x. sigmoid x * 2 - 0.5) (take 2 (g i j a))) ([real j] @ [real i]))
           @ map2 (*) (map (\<lambda>x. (sigmoid x * 2) ^ 2) (take 2 (drop 2 (g i j a))))
               (map (\<lambda>i. anchors ! i) msk ! a)),
         grid_of n (\<lambda>i j a. [sigmoid (g i j a ! 4)]),
         grid_of n (\<lambda>i j a. map sigmoid (drop 5 (g i j a))))"
proof -
  have c1: "list_all (list_all (list_all (\<lambda>v. 5 \<le> length v))) (grid_of n g)"
    using g by (simp add: list_all3_grid_of)
  have c2: "list_all (list_all (\<lambda>cell. length cell = 3)) (grid_of n g)"
    by (simp add: list_all2_grid_of)
  have la: "length (map (\<lambda>i. anchors ! i) msk) = 3"
    using msk by simp
  show ?thesis
    unfolding process_def Let_def
    using n msk(2) anc c1 c2 la
    apply (simp only: length_grid_of grid_w_grid_of rows_grid_of map3_grid_of tmap_grid_of
        tmap2_grid_of concat_last_grid_of grid_col_grid_of grid_row_grid_of
        anchors_mult_grid_of [OF la] simp_thms if_True if_False not_True_eq_False
        less_irrefl refl)
    apply simp
    done
qed

lemma map_sigmoid: "map sigmoid xs = xs"
  by (induction xs) (simp_all add: sigmoid_def)

lemma vec_take2: "2 \<le> length v \<Longrightarrow> take 2 v = [v ! 0, v ! 1]"
  by (cases v; cases "tl v") (auto simp: numeral_2_eq_2)

lemma process_grid_of_nth:
  assumes n: "0 < n"
    and g: "\<forall>i<n. \<forall>j<n. \<forall>a<3. 5 \<le> length (g i j a)"
    and msk: "length msk = 3" "list_all (\<lambda>i. i < length anchors) msk"
    and anc: "list_all (\<lambda>a. length a = 2) (map (\<lambda>i. anchors ! i) msk)"
    and ix: "i < n" "j < n" "a < 3"
  shows "\<exists>box conf probs. process cfg (grid_of n g) msk anchors = Inr (box, conf, probs)
     \<and> box ! i ! j ! a =
         [(g i j a ! 0 * 2 - 0.5 + real j) * real_of_int (py_int (net_size cfg / real n)),
          (g i j a ! 1 * 2 - 0.5 + real i) * real_of_int (py_int (net_size cfg / real n)),
          (g i j a ! 2 * 2) ^ 2 * anchors ! (msk ! a) ! 0,
          (g i j a ! 3 * 2) ^ 2 * anchors ! (msk ! a) ! 1]
     \<and> conf ! i ! j ! a = [g i j a ! 4]
     \<and> probs ! i ! j ! a = drop 5 (g i j a)"
proof -
  have l5: "5 \<le> length (g i j a)" using g ix by simp
  have t1: "take 2 (g i j a) = [g i j a ! 0, g i j a ! 1]"
    using l5 by (simp add: vec_take2)
  have t2: "take 2 (drop 2 (g i j a)) = [g i j a ! 2, g i j a ! 3]"
    using l5 by (simp add: vec_take2)
  have "length (anchors ! (msk ! a)) = 2"
    using anc msk ix by (simp add: list_all_length)
  then obtain p q where t3: "anchors ! (msk ! a) = [p, q]"
    by (metis length_0_conv length_Suc_conv numeral_2_eq_2)
  have nth: "grid_of n h ! i ! j ! a = h i j a" for h :: "nat \<Rightarrow> nat \<Rightarrow> nat \<Rightarrow> real list"
    using ix by (simp add: grid_of_def)
  have ma: "map (\<lambda>i. anchors ! i) msk ! a = anchors ! (msk ! a)"
    using msk ix by simp
  show ?thesis
    unfolding process_grid_of [OF n g msk anc]
    apply (intro exI conjI, rule refl)
      apply (simp_all only: nth)
    subgoal by (simp add: t1 t2 t3 ma sigmoid_def)
    subgoal by (simp add: sigmoid_def)
    subgoal by (simp add: map_sigmoid)
    done
qed



text \<open>
  Claim C1, amended. \<^verbatim>\<open>sigmoid\<close> returns its argument, so \<^verbatim>\<open>process\<close> decodes the raw
  values themselves: at cell \<open>(i, j)\<close> (row \<open>i\<close>, column \<open>j\<close>) and anchor \<open>a\<close> of a square
  grid, the box centre is \<open>raw_xy * 2 - 0.5\<close> plus the offset \<open>(j, i)\<close>, times
  \<^verbatim>\<open>int(net_size / grid_h)\<close>; the box size is \<open>(raw_wh * 2)\<^sup>2\<close> times the dimensions of
  the anchor selected by the mask; the objectness is \<open>raw_obj\<close> and the class
  probabilities are the raw class values.
\<close>

theorem process_decodes_raw_values:
  assumes "grid_ok 5 input"
    and "length msk = 3" and "list_all (\<lambda>i. i < length anchors) msk"
    and "list_all (\<lambda>a. length a = 2) (map (\<lambda>i. anchors ! i) msk)"
    and "i < length input" and "j < length input" and "a < 3"
  shows "\<exists>box conf probs. process cfg input msk anchors = Inr (box, conf, probs)
     \<and> box ! i ! j ! a =
         [(input ! i ! j ! a ! 0 * 2 - 0.5 + real j)
            * real_of_int (py_int (net_size cfg / real (length input))),
          (input ! i ! j ! a ! 1 * 2 - 0.5 + real i)
            * real_of_int (py_int (net_size cfg / real (length input))),
          (input ! i ! j ! a ! 2 * 2) ^ 2 * anchors ! (msk ! a) ! 0,
          (input ! i ! j ! a ! 3 * 2) ^ 2 * anchors ! (msk ! a) ! 1]
     \<and> conf ! i ! j ! a = [input ! i ! j ! a ! 4]
     \<and> probs ! i ! j ! a = drop 5 (input ! i ! j ! a)"
proof -
  define n where "n = length input"
  define g where "g = (\<lambda>i j a. input ! i ! j ! a)"
  have form: "input = grid_of n g"
    unfolding n_def g_def using assms(1) by (rule grid_ok_index_form)
  have n: "0 < n"
    using assms(1) by (simp add: n_def grid_ok_def)
  have g5: "\<forall>i<n. \<forall>j<n. \<forall>a<3. 5 \<le> length (g i j a)"
    using assms(1) unfolding grid_ok_def
    by (subst (asm) (4) form) (simp add: list_all3_grid_of)
  from process_grid_of_nth [OF n g5 assms(2-4), of i j a cfg] assms(5-7)
  show ?thesis
    unfolding form [symmetric] by (simp add: n_def g_def)
qed

theorem process_decodes_raw_values_witness:
  "grid_ok 5 [[[[1 / 2, 1 / 2, 1 / 2, 1 / 2, 2, 3], [0, 0, 0, 0, 0, 0], [0, 0, 0, 0, 0, 0]]]]
   \<and> (\<exists>box conf probs.
        process cfg_half
          [[[[1 / 2, 1 / 2, 1 / 2, 1 / 2, 2, 3], [0, 0, 0, 0, 0, 0], [0, 0, 0, 0, 0, 0]]]]
          [0, 1, 2] yolo_anchors = Inr (box, conf, probs)
        \<and> box ! 0 ! 0 ! 0 = [320, 320, 10, 13]
        \<and> conf ! 0 ! 0 ! 0 = [2]
        \<and> probs ! 0 ! 0 ! 0 = [3])"
proof -
  let ?input = "[[[[1 / 2, 1 / 2, 1 / 2, 1 / 2, 2, 3], [0, 0, 0, 0, 0, 0], [0, 0, 0, 0, 0, 0 :: real]]]]"
  have h1: "grid_ok 5 ?input"
    by (simp add: grid_ok_def)
  have h2: "length [0, 1, 2 :: nat] = 3"
    by simp
  have h3: "list_all (\<lambda>i. i < length yolo_anchors) [0, 1, 2]"
    by (simp add: yolo_anchors_def)
  have h4: "list_all (\<lambda>a. length a = 2) (map (\<lambda>i. yolo_anchors ! i) [0, 1, 2])"
    by (simp add: yolo_anchors_def)
  have h5: "0 < length ?input" and h7: "(0 :: nat) < 3"
    by simp_all
  from process_decodes_raw_values [OF h1 h2 h3 h4 h5 h5 h7, of cfg_half] h1
  show ?thesis
    by (simp add: cfg_half_def yolo_anchors_def py_int_def)
qed

text \<open>
  Claim C1, as stated, takes \<^verbatim>\<open>sigmoid\<close> to be the logistic function. On a raw tensor
  of zeros the decoded objectness and class probability are \<open>0\<close>, the centre is
  \<open>(0 * 2 - 0.5) * 640\<close> and the size is \<open>0\<close>, whereas the logistic function of \<open>0\<close> is
  one half.
\<close>

theorem process_objectness_is_not_logistic:
  "process cfg_half [[[[0, 0, 0, 0, 0, 0], [0, 0, 0, 0, 0, 0], [0, 0, 0, 0, 0, 0]]]]
       [0, 1, 2] yolo_anchors
     = Inr ([[[[- 320, - 320, 0, 0], [- 320, - 320, 0, 0], [- 320, - 320, 0, 0]]]],
            [[[[0], [0], [0]]]], [[[[0], [0], [0]]]])
   \<and> logistic 0 = 1 / 2"
proof
  show "process cfg_half [[[[0, 0, 0, 0, 0, 0], [0, 0, 0, 0, 0, 0], [0, 0, 0, 0, 0, 0]]]]
       [0, 1, 2] yolo_anchors
     = Inr ([[[[- 320, - 320, 0, 0], [- 320, - 320, 0, 0], [- 320, - 320, 0, 0]]]],
            [[[[0], [0], [0]]]], [[[[0], [0], [0]]]])"
    by code_simp
  show "logistic 0 = 1 / 2"
    by (simp add: logistic_def)
qed

section \<open>Properties of the detection post-process\<close>

lemma tmap_sigmoid: "tmap sigmoid A = A"
  by (simp add: tmap_def sigmoid_def [abs_def])

lemma process_conf_probs:
  assumes "process cfg input msk anchors = Inr (box, conf, probs)"
  shows "conf = map (map (map (\<lambda>v. [v ! 4]))) input \<and> probs = map (map (map (drop 5))) input"
  using assms
  by (auto simp: process_def Let_def tmap_sigmoid sigmoid_def split: if_splits)

lemma concat3_singletons:
  "concat (concat (concat (map (map (map (\<lambda>v. [f v]))) A))) = map f (concat (concat A))"
proof -
  have "concat (map (\<lambda>v. [f v]) ys) = map f ys" for ys
    by (induction ys) simp_all
  then show ?thesis
    by (simp add: map_concat [symmetric])
qed

lemma concat2_map3: "concat (concat (map (map (map h)) A)) = map h (concat (concat A))"
  by (simp add: map_concat [symmetric])

lemma process_filter_scores:
  assumes p: "process cfg input msk anchors = Inr (box, conf, probs)"
    and f: "filter_boxes cfg box conf probs = Inr (bs, cs, ss)"
    and x: "x \<in> set ss"
  shows "\<exists>v\<in>set (concat (concat input)). x = np_max (drop 5 v) * v ! 4
            \<and> obj_thresh cfg \<le> v ! 4 \<and> obj_thresh cfg \<le> np_max (drop 5 v)
            \<and> np_max (drop 5 v) \<in> set (drop 5 v)"
proof -
  have "list_all (list_all (list_all (\<lambda>v. v \<noteq> []))) probs"
    using f by (auto simp: filter_boxes_def split: if_splits)
  then have ne: "drop 5 v \<noteq> []" if "v \<in> set (concat (concat input))" for v
    using that process_conf_probs [OF p] by (auto simp: list_all_iff)
  from x obtain k where k: "k < length ss" "ss ! k = x"
    by (auto simp: in_set_conv_nth)
  have cp: "concat (concat (concat conf)) = map (\<lambda>v. v ! 4) (concat (concat input))"
    "concat (concat probs) = map (drop 5) (concat (concat input))"
    using process_conf_probs [OF p] by (simp_all add: concat3_singletons concat2_map3)
  from filter_boxes_entries [OF f] k(1) obtain i where
    i: "i < length (concat (concat (concat conf)))"
      "obj_thresh cfg \<le> concat (concat (concat conf)) ! i"
      "obj_thresh cfg \<le> np_max (concat (concat probs) ! i)"
      "ss ! k = np_max (concat (concat probs) ! i) * concat (concat (concat conf)) ! i"
    by blast
  define v where "v = concat (concat input) ! i"
  have il: "i < length (concat (concat input))"
    using i(1) by (simp add: cp)
  then have vin: "v \<in> set (concat (concat input))"
    unfolding v_def by (rule nth_mem)
  then have "np_max (drop 5 v) \<in> set (drop 5 v)"
    using ne by (simp add: np_max_in)
  moreover note vin
  moreover have "x = np_max (drop 5 v) * v ! 4" "obj_thresh cfg \<le> v ! 4"
    "obj_thresh cfg \<le> np_max (drop 5 v)"
    using i(2-4) il k(2) by (simp_all add: cp v_def)
  ultimately show ?thesis by blast
qed

lemma decode_scales_scores:
  assumes "decode_scales cfg tms = Inr (fbs, fcs, fss)" and "x \<in> set (concat fss)"
  shows "\<exists>tm\<in>set tms. \<exists>v\<in>set (concat (concat (fst tm))). x = np_max (drop 5 v) * v ! 4
            \<and> obj_thresh cfg \<le> v ! 4 \<and> obj_thresh cfg \<le> np_max (drop 5 v)
            \<and> np_max (drop 5 v) \<in> set (drop 5 v)"
  using assms
proof (induction tms arbitrary: fbs fcs fss)
  case Nil
  then show ?case by simp
next
  case (Cons tm tms)
  obtain input msk where tm: "tm = (input, msk)" by (cases tm)
  from Cons.prems(1) obtain box conf probs bs cs ss fbs' fcs' fss' where
    p: "process cfg input msk yolo_anchors = Inr (box, conf, probs)" and
    f: "filter_boxes cfg box conf probs = Inr (bs, cs, ss)" and
    r: "decode_scales cfg tms = Inr (fbs', fcs', fss')" and
    eq: "fss = ss # fss'"
    by (auto simp: tm split: sum.splits)
  from Cons.prems(2) eq consider "x \<in> set ss" | "x \<in> set (concat fss')"
    by auto
  then show ?case
  proof cases
    case 1
    from process_filter_scores [OF p f 1] show ?thesis
      by (auto simp: tm)
  next
    case 2
    from Cons.IH [OF r 2] show ?thesis
      by auto
  qed
qed

lemma decode_scales_lengths:
  assumes "decode_scales cfg tms = Inr (fbs, fcs, fss)"
  shows "length fbs = length tms \<and> length (concat fbs) = length (concat fss)
           \<and> length (concat fcs) = length (concat fss)"
  using assms
proof (induction tms arbitrary: fbs fcs fss)
  case Nil
  then show ?case by simp
next
  case (Cons tm tms)
  obtain input msk where tm: "tm = (input, msk)" by (cases tm)
  from Cons.prems(1) obtain box conf probs bs cs ss fbs' fcs' fss' where
    f: "filter_boxes cfg box conf probs = Inr (bs, cs, ss)" and
    r: "decode_scales cfg tms = Inr (fbs', fcs', fss')" and
    eq: "fbs = bs # fbs'" "fcs = cs # fcs'" "fss = ss # fss'"
    by (auto simp: tm split: sum.splits)
  from filter_boxes_entries [OF f] have "length bs = length ss" "length cs = length ss"
    by simp_all
  with Cons.IH [OF r] show ?case
    by (simp add: eq)
qed


lemma nms_loop_nonempty: "order \<noteq> [] \<Longrightarrow> nms_loop cfg boxes order \<noteq> []"
  by (cases order) simp_all

lemma nms_boxes_keep:
  assumes "nms_boxes cfg b s = Inr keep"
  shows "set keep \<subseteq> {0..<length s} \<and> (s \<noteq> [] \<longrightarrow> keep \<noteq> [])"
proof -
  from assms have keep: "keep = nms_loop cfg b (rev (argsort s))"
    by (auto simp: nms_boxes_def split: if_splits)
  have "set keep \<subseteq> {0..<length s}"
    using nms_loop_subset [of cfg b "rev (argsort s)"] by (simp add: keep set_argsort)
  moreover have "keep \<noteq> []" if "s \<noteq> []"
  proof -
    have "length (argsort s) = length s" by (simp add: argsort_def)
    with that have "rev (argsort s) \<noteq> []" by auto
    then show ?thesis unfolding keep by (rule nms_loop_nonempty)
  qed
  ultimately show ?thesis by blast
qed

lemma set_take_idx: "set idx \<subseteq> {0..<length xs} \<Longrightarrow> set (take_idx xs idx) \<subseteq> set xs"
  by (auto simp: take_idx_def)

lemma np_where_nonempty: "c \<in> set xs \<Longrightarrow> np_where (\<lambda>k. k = c) xs \<noteq> []"
proof -
  assume "c \<in> set xs"
  then obtain i where "i < length xs" "xs ! i = c"
    by (auto simp: in_set_conv_nth)
  then have "i \<in> set (np_where (\<lambda>k. k = c) xs)"
    by (simp add: np_where_iff)
  then show ?thesis by auto
qed

lemma nms_classes_props:
  assumes "nms_classes cfg boxes classes scores cs = Inr (nb, nc, ns)"
  shows "length nc = length cs \<and> length ns = length cs
     \<and> length (concat nb) = length (concat ns) \<and> length (concat nc) = length (concat ns)
     \<and> set (concat ns) \<subseteq> set scores
     \<and> (cs \<noteq> [] \<and> set cs \<subseteq> set classes \<longrightarrow> concat ns \<noteq> [])"
  using assms
proof (induction cs arbitrary: nb nc ns)
  case Nil
  then show ?case by simp
next
  case (Cons c cs)
  define inds where "inds = np_where (\<lambda>k. k = c) classes"
  define b where "b = take_idx boxes inds"
  define s where "s = take_idx scores inds"
  from Cons.prems obtain keep nb' nc' ns' where
    chk: "list_all (\<lambda>i. i < length boxes \<and> i < length scores) inds" and
    k: "nms_boxes cfg b s = Inr keep" and
    r: "nms_classes cfg boxes classes scores cs = Inr (nb', nc', ns')" and
    eq: "nb = take_idx b keep # nb'" "nc = take_idx (take_idx classes inds) keep # nc'"
        "ns = take_idx s keep # ns'"
    by (auto simp: Let_def inds_def b_def s_def split: if_splits sum.splits)
  note IH = Cons.IH [OF r]
  from nms_boxes_keep [OF k] have keep: "set keep \<subseteq> {0..<length s}" "s \<noteq> [] \<longrightarrow> keep \<noteq> []"
    by simp_all
  have "set inds \<subseteq> {0..<length scores}"
    using chk by (auto simp: list_all_iff)
  then have "set s \<subseteq> set scores"
    unfolding s_def by (rule set_take_idx)
  moreover have "set (take_idx s keep) \<subseteq> set s"
    using keep(1) by (rule set_take_idx)
  ultimately have sub: "set (take_idx s keep) \<subseteq> set scores" by blast
  have ne: "take_idx s keep \<noteq> []" if "c \<in> set classes"
  proof -
    from that have "inds \<noteq> []" unfolding inds_def by (rule np_where_nonempty)
    then have "s \<noteq> []" by (simp add: s_def take_idx_def)
    with keep(2) show ?thesis by (simp add: take_idx_def)
  qed
  show ?case
    using IH sub ne by (auto simp: eq length_take_idx)
qed

lemma class_ids_set: "set (class_ids classes) = set classes"
  by (simp add: class_ids_def)

lemma class_ids_Nil: "class_ids classes = [] \<longleftrightarrow> classes = []"
  using class_ids_set [of classes] by (metis set_empty)

lemma yolov5_post_process_Some:
  assumes "yolov5_post_process cfg input_data = Inr (Some (b, c, s))"
  shows "\<exists>fbs fcs fss. decode_scales cfg (zip input_data yolo_masks) = Inr (fbs, fcs, fss)
     \<and> set s \<subseteq> set (concat fss)
     \<and> length b = length s \<and> length c = length s \<and> concat fss \<noteq> []"
proof -
  from assms obtain fbs fcs fss boxes nb nc ns where
    d: "decode_scales cfg (zip input_data yolo_masks) = Inr (fbs, fcs, fss)" and
    n: "nms_classes cfg boxes (concat fcs) (concat fss) (class_ids (concat fcs)) = Inr (nb, nc, ns)" and
    ne: "\<not> (nc = [] \<and> ns = [])" and
    eq: "b = concat nb" "c = concat nc" "s = concat ns"
    by (auto simp: yolov5_post_process_def Let_def split: sum.splits if_splits prod.splits)
  from nms_classes_props [OF n] have
    p: "length nc = length (class_ids (concat fcs))" "length ns = length (class_ids (concat fcs))"
       "length (concat nb) = length (concat ns)" "length (concat nc) = length (concat ns)"
       "set (concat ns) \<subseteq> set (concat fss)"
    by simp_all
  from ne p(1,2) have "class_ids (concat fcs) \<noteq> []" by auto
  then have "concat fcs \<noteq> []" by (simp add: class_ids_Nil)
  with decode_scales_lengths [OF d] have "concat fss \<noteq> []" by (metis length_0_conv)
  with d p show ?thesis
    by (auto simp: eq)
qed

text \<open>
  Claim C7, amended. Every score that \<^verbatim>\<open>yolov5_post_process\<close> returns is the product of
  the objectness channel and the largest class channel of one anchor vector \<open>v\<close> of one
  input tensor, both taken as they are in the tensor (\<^verbatim>\<open>sigmoid\<close> returns its argument),
  and each of the two factors is at least \<^verbatim>\<open>obj_thresh\<close>. The factors lie in \<open>[0, 1]\<close>
  only when the tensor values do.
\<close>

theorem detection_scores_are_raw_products:
  assumes "yolov5_post_process cfg input_data = Inr (Some (b, c, s))" and "x \<in> set s"
  shows "\<exists>t\<in>set input_data. \<exists>v\<in>set (concat (concat t)).
            x = np_max (drop 5 v) * v ! 4
          \<and> obj_thresh cfg \<le> v ! 4 \<and> obj_thresh cfg \<le> np_max (drop 5 v)
          \<and> np_max (drop 5 v) \<in> set (drop 5 v)"
proof -
  from yolov5_post_process_Some [OF assms(1)] obtain fbs fcs fss where
    d: "decode_scales cfg (zip input_data yolo_masks) = Inr (fbs, fcs, fss)" and
    sub: "set s \<subseteq> set (concat fss)"
    by blast
  from sub assms(2) have "x \<in> set (concat fss)" by blast
  from decode_scales_scores [OF d this] obtain tm v where
    tm: "tm \<in> set (zip input_data yolo_masks)" and
    v: "v \<in> set (concat (concat (fst tm)))" "x = np_max (drop 5 v) * v ! 4"
       "obj_thresh cfg \<le> v ! 4" "obj_thresh cfg \<le> np_max (drop 5 v)"
       "np_max (drop 5 v) \<in> set (drop 5 v)"
    by blast
  from tm have "(fst tm, snd tm) \<in> set (zip input_data yolo_masks)"
    by simp
  then have "fst tm \<in> set input_data"
    by (rule set_zip_leftD)
  with v show ?thesis by blast
qed

theorem detection_scores_are_raw_products_witness:
  "yolov5_post_process cfg_half [hit_grid, zero_grid, zero_grid]
     = Inr (Some ([[315, 627 / 2, 325, 653 / 2]], [0], [6]))
   \<and> (6 :: real) \<in> set [6]
   \<and> (\<exists>t\<in>set [hit_grid, zero_grid, zero_grid]. \<exists>v\<in>set (concat (concat t)).
            6 = np_max (drop 5 v) * v ! 4
          \<and> obj_thresh cfg_half \<le> v ! 4 \<and> obj_thresh cfg_half \<le> np_max (drop 5 v)
          \<and> np_max (drop 5 v) \<in> set (drop 5 v))"
proof -
  have h1: "yolov5_post_process cfg_half [hit_grid, zero_grid, zero_grid]
     = Inr (Some ([[315, 627 / 2, 325, 653 / 2]], [0], [6]))"
    by code_simp
  have h2: "(6 :: real) \<in> set [6]"
    by simp
  from detection_scores_are_raw_products [OF h1 h2] h1 h2 show ?thesis
    by blast
qed

text \<open>
  Claim C7, as stated, bounds both factors of a score by \<open>[0, 1]\<close>, so that no score
  exceeds \<open>1\<close>. For a tensor whose objectness channel is \<open>2\<close> and whose class channel is
  \<open>3\<close> the pipeline returns one detection with score \<open>6\<close>.
\<close>

theorem detection_score_above_one:
  "prepare [raw_hit, raw_zero, raw_zero] = Inr [hit_grid, zero_grid, zero_grid]
   \<and> yolov5_post_process cfg_half [hit_grid, zero_grid, zero_grid]
     = Inr (Some ([[315, 627 / 2, 325, 653 / 2]], [0], [6]))
   \<and> hit_grid ! 0 ! 0 ! 0 ! 4 = 2 \<and> hit_grid ! 0 ! 0 ! 0 ! 5 = 3
   \<and> (1 :: real) < 6"
proof -
  have "prepare [raw_hit, raw_zero, raw_zero] = Inr [hit_grid, zero_grid, zero_grid]"
    by code_simp
  moreover have "yolov5_post_process cfg_half [hit_grid, zero_grid, zero_grid]
     = Inr (Some ([[315, 627 / 2, 325, 653 / 2]], [0], [6]))"
    by code_simp
  ultimately show ?thesis
    by (simp add: hit_grid_def)
qed


lemma length_concat_const:
  "\<forall>x\<in>set xs. length x = m \<Longrightarrow> length (concat xs) = length xs * m"
  by (induction xs) simp_all

lemma length_concat2_grid_of: "length (concat (concat (grid_of n h))) = n * n * 3"
proof -
  have "length (concat (grid_of n h)) = n * n"
    by (rule trans [OF length_concat_const [where m = n]]) (auto simp: grid_of_def)
  moreover have "\<forall>x\<in>set (concat (grid_of n h)). length x = 3"
    by (auto simp: grid_of_def)
  ultimately show ?thesis
    using length_concat_const [of "concat (grid_of n h)" 3] by simp
qed

lemma length_concat3_grid_of_single:
  "length (concat (concat (concat (grid_of n (\<lambda>i j a. [f i j a]))))) = n * n * 3"
proof -
  have "\<forall>x\<in>set (concat (concat (grid_of n (\<lambda>i j a. [f i j a])))). length x = 1"
    by (auto simp: grid_of_def)
  then show ?thesis
    using length_concat_const [of "concat (concat (grid_of n (\<lambda>i j a. [f i j a])))" 1]
    by (simp add: length_concat2_grid_of)
qed

lemma yolo_mask_ok:
  assumes "msk \<in> set yolo_masks"
  shows "length msk = 3" and "list_all (\<lambda>i. i < length yolo_anchors) msk"
    and "list_all (\<lambda>a. length a = 2) (map (\<lambda>i. yolo_anchors ! i) msk)"
  using assms by (auto simp: yolo_masks_def yolo_anchors_def)

lemma process_filter_ok:
  assumes ok: "grid_ok 6 input" and m: "msk \<in> set yolo_masks"
  shows "\<exists>box conf probs bs cs ss.
           process cfg input msk yolo_anchors = Inr (box, conf, probs)
         \<and> filter_boxes cfg box conf probs = Inr (bs, cs, ss)
         \<and> (\<forall>r\<in>set bs. length r = 4)"
proof -
  define n where "n = length input"
  define g where "g = (\<lambda>i j a. input ! i ! j ! a)"
  have form: "input = grid_of n g"
    unfolding n_def g_def using ok by (rule grid_ok_index_form)
  have n: "0 < n"
    using ok by (simp add: n_def grid_ok_def)
  have g6: "\<forall>i<n. \<forall>j<n. \<forall>a<3. 6 \<le> length (g i j a)"
    using ok unfolding grid_ok_def
    by (subst (asm) (4) form) (simp add: list_all3_grid_of)
  then have g5: "\<forall>i<n. \<forall>j<n. \<forall>a<3. 5 \<le> length (g i j a)"
    by fastforce
  note mk = yolo_mask_ok [OF m]
  define B where "B = (\<lambda>i j a.
           map (\<lambda>x. x * real_of_int (py_int (net_size cfg / real n)))
             (map2 (+) (map (\<lambda>x. sigmoid x * 2 - 0.5) (take 2 (g i j a))) ([real j] @ [real i]))
           @ map2 (*) (map (\<lambda>x. (sigmoid x * 2) ^ 2) (take 2 (drop 2 (g i j a))))
               (map (\<lambda>i. yolo_anchors ! i) msk ! a))"
  define C where "C = (\<lambda>i j a. sigmoid (g i j a ! 4))"
  define P where "P = (\<lambda>i j a. map sigmoid (drop 5 (g i j a)))"
  have p: "process cfg input msk yolo_anchors
      = Inr (grid_of n B, grid_of n (\<lambda>i j a. [C i j a]), grid_of n P)"
    unfolding form B_def C_def P_def by (rule process_grid_of [OF n g5 mk])
  have lenB: "length (B i j a) = 4" if "i < n" "j < n" "a < 3" for i j a
  proof -
    have "5 \<le> length (g i j a)" using g5 that by simp
    moreover have "length (map (\<lambda>i. yolo_anchors ! i) msk ! a) = 2"
      using mk that by (simp add: list_all_length)
    ultimately show ?thesis by (simp add: B_def)
  qed
  have c1: "list_all (list_all (list_all (\<lambda>v. length v = 4))) (grid_of n B)"
    using lenB by (simp add: list_all3_grid_of)
  have c2: "list_all (list_all (list_all (\<lambda>v. v \<noteq> []))) (grid_of n P)"
    using g6 by (fastforce simp: list_all3_grid_of P_def)
  define fc where "fc = concat (concat (concat (grid_of n (\<lambda>i j a. [C i j a]))))"
  have lens: "length fc = n * n * 3" "length (concat (concat (grid_of n B))) = n * n * 3"
    "length (concat (concat (grid_of n P))) = n * n * 3"
    by (simp_all add: fc_def length_concat3_grid_of_single length_concat2_grid_of)
  have c3: "list_all (\<lambda>i. i < length (concat (concat (grid_of n B)))
               \<and> i < length (concat (concat (grid_of n P))))
             (np_where (\<lambda>c. obj_thresh cfg \<le> c) fc)"
    by (simp add: list_all_iff np_where_iff lens)
  obtain bs cs ss where
    f: "filter_boxes cfg (grid_of n B) (grid_of n (\<lambda>i j a. [C i j a])) (grid_of n P)
          = Inr (bs, cs, ss)"
    using c1 c2 c3 by (simp add: filter_boxes_def Let_def fc_def)
  have "length r = 4" if "r \<in> set bs" for r
  proof -
    from that obtain k where k: "k < length bs" "bs ! k = r"
      by (auto simp: in_set_conv_nth)
    from filter_boxes_entries [OF f] k(1) obtain i where
      "i < length fc" "bs ! k = concat (concat (grid_of n B)) ! i"
      unfolding fc_def by force
    then have "r \<in> set (concat (concat (grid_of n B)))"
      using k(2) lens by (metis nth_mem)
    then show ?thesis
      using c1 by (auto simp: list_all_iff)
  qed
  with p f show ?thesis by blast
qed

lemma decode_scales_ok:
  assumes "\<forall>tm\<in>set tms. grid_ok 6 (fst tm) \<and> snd tm \<in> set yolo_masks"
  shows "\<exists>fbs fcs fss. decode_scales cfg tms = Inr (fbs, fcs, fss)
           \<and> (\<forall>r\<in>set (concat fbs). length r = 4)"
  using assms
proof (induction tms)
  case Nil
  then show ?case by simp
next
  case (Cons tm tms)
  obtain input msk where tm: "tm = (input, msk)" by (cases tm)
  from Cons.prems have "grid_ok 6 input" "msk \<in> set yolo_masks"
    by (simp_all add: tm)
  from process_filter_ok [OF this, of cfg] obtain box conf probs bs cs ss where
    p: "process cfg input msk yolo_anchors = Inr (box, conf, probs)" and
    f: "filter_boxes cfg box conf probs = Inr (bs, cs, ss)" and
    r: "\<forall>r\<in>set bs. length r = 4"
    by blast
  from Cons obtain fbs fcs fss where
    d: "decode_scales cfg tms = Inr (fbs, fcs, fss)" "\<forall>r\<in>set (concat fbs). length r = 4"
    by auto
  show ?case
    using p f r d by (auto simp: tm)
qed


lemma xywh2xyxy_ok:
  assumes "\<forall>r\<in>set x. length r = 4"
  shows "\<exists>y. xywh2xyxy x = Inr y \<and> length y = length x \<and> (\<forall>r\<in>set y. 4 \<le> length r)"
  using assms by (auto simp: xywh2xyxy_def list_all_iff)

lemma nms_classes_ok:
  assumes rows: "\<forall>r\<in>set boxes. 4 \<le> length r"
    and len: "length boxes = length classes" "length scores = length classes"
  shows "\<exists>res. nms_classes cfg boxes classes scores cs = Inr res"
proof (induction cs)
  case Nil
  then show ?case by simp
next
  case (Cons c cs)
  define inds where "inds = np_where (\<lambda>k. k = c) classes"
  have rng: "\<forall>i\<in>set inds. i < length classes"
    by (simp add: inds_def np_where_iff)
  then have chk: "list_all (\<lambda>i. i < length boxes \<and> i < length scores) inds"
    by (simp add: list_all_iff len)
  have "list_all (\<lambda>r. 4 \<le> length r) (take_idx boxes inds)"
    using rows rng len by (auto simp: take_idx_def list_all_iff)
  then obtain keep where "nms_boxes cfg (take_idx boxes inds) (take_idx scores inds) = Inr keep"
    by (simp add: nms_boxes_def length_take_idx)
  with Cons chk show ?case
    by (auto simp: Let_def inds_def [symmetric])
qed

text \<open>
  Claim C10. For three detection tensors (square grids, three anchors, at least six
  channels) \<^verbatim>\<open>yolov5_post_process\<close> returns without raising; its result is either the
  triple of \<^verbatim>\<open>None\<close> or three arrays of one and the same, positive length; and it is
  the triple of \<^verbatim>\<open>None\<close> exactly when the filter leaves no entry on any of the scales.
\<close>

theorem yolov5_post_process_none_or_equal_lengths:
  assumes "length input_data = 3" and "list_all (grid_ok 6) input_data"
  shows "\<exists>fbs fcs fss r.
           decode_scales cfg (zip input_data yolo_masks) = Inr (fbs, fcs, fss)
         \<and> yolov5_post_process cfg input_data = Inr r
         \<and> (r = None \<longleftrightarrow> concat fss = [])
         \<and> (r = None \<or> (\<exists>b c s. r = Some (b, c, s)
                \<and> length b = length c \<and> length c = length s \<and> 0 < length s))"
proof -
  have "\<forall>tm\<in>set (zip input_data yolo_masks). grid_ok 6 (fst tm) \<and> snd tm \<in> set yolo_masks"
    using assms(2) by (auto simp: list_all_iff dest: set_zip_leftD set_zip_rightD)
  from decode_scales_ok [OF this, of cfg] obtain fbs fcs fss where
    d: "decode_scales cfg (zip input_data yolo_masks) = Inr (fbs, fcs, fss)" and
    rows: "\<forall>r\<in>set (concat fbs). length r = 4"
    by blast
  from decode_scales_lengths [OF d] assms(1) have
    l: "length fbs = 3" "length (concat fbs) = length (concat fss)"
       "length (concat fcs) = length (concat fss)"
    by (simp_all add: yolo_masks_def)
  from l(1) have ne: "fbs \<noteq> []" by auto
  from xywh2xyxy_ok [OF rows] obtain boxes where
    x: "xywh2xyxy (concat fbs) = Inr boxes" "length boxes = length (concat fbs)"
       "\<forall>r\<in>set boxes. 4 \<le> length r"
    by blast
  from nms_classes_ok [OF x(3), of "concat fcs" "concat fss" cfg "class_ids (concat fcs)"]
  obtain nb nc ns where
    n: "nms_classes cfg boxes (concat fcs) (concat fss) (class_ids (concat fcs)) = Inr (nb, nc, ns)"
    using x(2) l by (metis prod_cases3)
  from nms_classes_props [OF n] have
    p: "length nc = length (class_ids (concat fcs))" "length ns = length (class_ids (concat fcs))"
       "length (concat nb) = length (concat ns)" "length (concat nc) = length (concat ns)"
       "class_ids (concat fcs) \<noteq> [] \<longrightarrow> concat ns \<noteq> []"
    by (simp_all add: class_ids_set)
  define r where "r = (if nc = [] \<and> ns = [] then None
                       else Some (concat nb, concat nc, concat ns))"
  have y: "yolov5_post_process cfg input_data = Inr r"
    using d ne x(1) n by (simp add: yolov5_post_process_def r_def)
  have e: "nc = [] \<and> ns = [] \<longleftrightarrow> concat fss = []"
  proof -
    have "nc = [] \<and> ns = [] \<longleftrightarrow> class_ids (concat fcs) = []"
      using p(1,2) by auto
    also have "\<dots> \<longleftrightarrow> concat fcs = []"
      by (rule class_ids_Nil)
    also have "\<dots> \<longleftrightarrow> concat fss = []"
      using l(3) by (metis length_0_conv)
    finally show ?thesis .
  qed
  have "r = None \<longleftrightarrow> concat fss = []"
    using e by (simp add: r_def)
  moreover have "r = None \<or> (\<exists>b c s. r = Some (b, c, s)
                \<and> length b = length c \<and> length c = length s \<and> 0 < length s)"
  proof (cases "nc = [] \<and> ns = []")
    case True
    then show ?thesis by (simp add: r_def)
  next
    case False
    with p(1,2) have "class_ids (concat fcs) \<noteq> []" by auto
    with p(5) have "concat ns \<noteq> []" by simp
    then have "0 < length (concat ns)" by (rule length_greater_0_conv [THEN iffD2])
    with False p(3,4) show ?thesis by (simp add: r_def)
  qed
  ultimately show ?thesis
    using d y by blast
qed

theorem yolov5_post_process_none_or_equal_lengths_witness:
  "length [hit_grid, zero_grid, zero_grid] = 3
   \<and> list_all (grid_ok 6) [hit_grid, zero_grid, zero_grid]
   \<and> (\<exists>fbs fcs fss r.
           decode_scales cfg_half (zip [hit_grid, zero_grid, zero_grid] yolo_masks)
             = Inr (fbs, fcs, fss)
         \<and> yolov5_post_process cfg_half [hit_grid, zero_grid, zero_grid] = Inr r
         \<and> (r = None \<longleftrightarrow> concat fss = [])
         \<and> (r = None \<or> (\<exists>b c s. r = Some (b, c, s)
                \<and> length b = length c \<and> length c = length s \<and> 0 < length s)))"
proof -
  have h1: "length [hit_grid, zero_grid, zero_grid] = 3"
    by simp
  have h2: "list_all (grid_ok 6) [hit_grid, zero_grid, zero_grid]"
    by code_simp
  from yolov5_post_process_none_or_equal_lengths [OF h1 h2] h1 h2 show ?thesis
    by blast
qed

lemma decode_scales_below_thresh:
  assumes "decode_scales cfg tms = Inr (fbs, fcs, fss)"
    and "\<forall>tm\<in>set tms. \<forall>v\<in>set (concat (concat (fst tm))). v ! 4 < obj_thresh cfg"
  shows "concat fcs = []"
proof -
  have "concat fss = []"
  proof (rule ccontr)
    assume "concat fss \<noteq> []"
    then obtain x where "x \<in> set (concat fss)"
      by (meson last_in_set)
    from decode_scales_scores [OF assms(1) this] assms(2) show False
      by fastforce
  qed
  with decode_scales_lengths [OF assms(1)] show ?thesis
    by (metis length_0_conv)
qed

text \<open>
  Claim C6. When the filter leaves no entry on any scale, and so no class to group by
  (by \<open>decode_scales_below_thresh\<close> this is the case when no objectness reaches
  \<^verbatim>\<open>obj_thresh\<close>), \<^verbatim>\<open>yolov5_post_process\<close> returns the triple of \<^verbatim>\<open>None\<close>, not empty
  arrays, and \<^verbatim>\<open>post_yolov5\<close> returns the frame it was given, on which \<^verbatim>\<open>draw\<close> has not
  been called, together with \<^verbatim>\<open>None\<close> for the detections.
\<close>

theorem no_surviving_class_gives_absent_result:
  assumes "prepare outputs = Inr data" and "data \<noteq> []"
    and "decode_scales cfg (zip data yolo_masks) = Inr (fbs, fcs, fss)"
    and "concat fcs = []"
  shows "yolov5_post_process cfg data = Inr None
       \<and> post_yolov5 cfg draw format_dets outputs frame = Some (Inr (frame, None))"
proof -
  from decode_scales_lengths [OF assms(3)] have
    l: "length fbs = length (zip data yolo_masks)" "length (concat fbs) = length (concat fss)"
       "length (concat fcs) = length (concat fss)"
    by simp_all
  from l(1) assms(2) have ne: "fbs \<noteq> []"
    by (cases data) (auto simp: yolo_masks_def)
  from l(2,3) assms(4) have "length (concat fbs) = 0" by simp
  then have e: "concat fbs = []" by (simp only: length_0_conv)
  have x: "xywh2xyxy (concat fbs) = Inr []"
    unfolding e by (simp add: xywh2xyxy_def)
  have n: "nms_classes cfg [] (concat fcs) (concat fss) (class_ids (concat fcs)) = Inr ([], [], [])"
    unfolding assms(4) by (simp add: class_ids_def)
  have y: "yolov5_post_process cfg data = Inr None"
    by (simp add: yolov5_post_process_def assms(3) ne x n)
  then show ?thesis
    using assms(1)
    by (simp add: post_yolov5_def while_true_Return post_yolov5_body_def)
qed


theorem no_surviving_class_gives_absent_result_witness:
  "prepare [raw_zero, raw_zero, raw_zero] = Inr [zero_grid, zero_grid, zero_grid]
   \<and> [zero_grid, zero_grid, zero_grid] \<noteq> []
   \<and> decode_scales cfg_half (zip [zero_grid, zero_grid, zero_grid] yolo_masks)
       = Inr ([[], [], []], [[], [], []], [[], [], []])
   \<and> concat [[], [], [] :: nat list] = []
   \<and> yolov5_post_process cfg_half [zero_grid, zero_grid, zero_grid] = Inr None
   \<and> post_yolov5 cfg_half (\<lambda>fr b s c. (b, s, c) # fr) (\<lambda>b c s. (b, c, s))
        [raw_zero, raw_zero, raw_zero] [] = Some (Inr ([], None))"
proof -
  have h1: "prepare [raw_zero, raw_zero, raw_zero] = Inr [zero_grid, zero_grid, zero_grid]"
    by code_simp
  have h2: "[zero_grid, zero_grid, zero_grid] \<noteq> []"
    by simp
  have h3: "decode_scales cfg_half (zip [zero_grid, zero_grid, zero_grid] yolo_masks)
       = Inr ([[], [], []], [[], [], []], [[], [], []])"
    by code_simp
  have h4: "concat [[], [], [] :: nat list] = []"
    by simp
  from no_surviving_class_gives_absent_result [OF h1 h2 h3 h4,
      where draw = "\<lambda>fr b s c. (b, s, c) # fr" and format_dets = "\<lambda>b c s. (b, c, s)"
        and frame = "[]"] h1 h2 h3 h4
  show ?thesis
    by simp
qed

end
